theory Spec2Isabelle
  imports Main
begin

section \<open>The reference kernel \<open>gather_nd\<close>\<close>

text \<open>
  A shallow embedding of \<^verbatim>\<open>ngraph/runtime/reference/gather_nd.hpp\<close>.

  Conventions of the embedding.
  \<^item> A \<^verbatim>\<open>Shape\<close> is a \<^verbatim>\<open>std::vector<size_t>\<close>: a list of naturals, each standing for
    a value of \<^verbatim>\<open>size_t\<close>, which is taken to have 64 bits. What \<^verbatim>\<open>gather_nd\<close> computes in
    \<^verbatim>\<open>size_t\<close> from the shapes before its loops is computed as the type does, modulo
    \<open>2 ^ 64\<close> (\<open>size_t_of\<close>): the sum \<^verbatim>\<open>batch_dims + indices_shape.back()\<close>, the products
    of the offset builder and the product that gives \<^verbatim>\<open>batch_offset\<close>.
  \<^item> The offsets inside the loops are exact integers. A copy is defined in the embedding
    when its exact offsets lie inside the buffers; there the arithmetic of the type
    yields the same offsets.
  \<^item> The element type \<^verbatim>\<open>T\<close> is a type variable. The index type \<^verbatim>\<open>U\<close> is \<open>int\<close>: an
    unsigned \<^verbatim>\<open>U\<close> is the case of indices that are never negative.
  \<^item> A buffer reached through a raw pointer is the list of its elements. Reading or
    writing outside the list, dereferencing an iterator outside its vector, and calling
    \<^verbatim>\<open>front\<close> or \<^verbatim>\<open>back\<close> on an empty vector have no defined behaviour in C++; the
    embedding makes each of them the explicit outcome \<open>Undefined\<close>.
  \<^item> The three \<^verbatim>\<open>throw std::domain_error\<close> statements are three values of the type
    \<open>exception\<close>; the fourth is the \<^verbatim>\<open>std::length_error\<close> of a \<^verbatim>\<open>std::vector\<close> constructed
    with more elements than it can hold. A throw leaves the output buffer as it was at
    the throw.
  \<^item> The output buffer is the state. It is paired with the list of the element writes
    done so far (position and value, oldest first), so that which positions are written,
    how often and in which order can be stated.
\<close>

subsection \<open>Shapes\<close>

type_synonym Shape = "nat list"

text \<open>
  Modelled from the spec: \<^verbatim>\<open>shape_size\<close> is declared in \<^verbatim>\<open>ngraph/shape.hpp\<close>, which is
  not among the sources. The spec gives it as the product of the entries, a shape of
  length 0 having size 1; it is the exact product here.
\<close>

definition shape_size :: "nat list \<Rightarrow> nat" where
  "shape_size shape = foldl (\<lambda>size d. size * d) 1 shape"

subsection \<open>Arithmetic of \<^verbatim>\<open>size_t\<close>\<close>

text \<open>
  The value that a computation in \<^verbatim>\<open>size_t\<close> leaves when its exact result is \<open>n\<close>:
  unsigned arithmetic wraps around.
\<close>

definition size_t_of :: "nat \<Rightarrow> nat" where
  "size_t_of n = n mod 2 ^ 64"

subsection \<open>The view type \<open>Span\<close>\<close>

text \<open>
  A \<^verbatim>\<open>Span\<close> holds two iterators into one vector. An iterator is a position in the
  vector, so the record keeps the vector and the two positions.
\<close>

record Span =
  vec :: "nat list"
  m_begin :: nat
  m_end :: nat

definition span :: "nat list \<Rightarrow> nat \<Rightarrow> nat \<Rightarrow> Span" where
  "span v b e = \<lparr>vec = v, m_begin = b, m_end = e\<rparr>"

text \<open>
  \<^verbatim>\<open>operator[]\<close> is \<^verbatim>\<open>*next(m_begin, idx)\<close>: it does not look at \<^verbatim>\<open>m_end\<close>. The
  dereference is defined as long as the position is inside the vector.
\<close>

definition span_at :: "Span \<Rightarrow> nat \<Rightarrow> nat option" where
  "span_at s idx =
     (if m_begin s + idx < length (vec s) then Some (vec s ! (m_begin s + idx)) else None)"

text \<open>\<^verbatim>\<open>size()\<close> is \<^verbatim>\<open>std::distance(m_begin, m_end)\<close>, a signed difference.\<close>

definition span_size :: "Span \<Rightarrow> int" where
  "span_size s = int (m_end s) - int (m_begin s)"

text \<open>
  Iterating from \<^verbatim>\<open>begin()\<close> to \<^verbatim>\<open>end()\<close>, as \<^verbatim>\<open>shape_size\<close> does on a span, visits the
  elements between the two positions; it is defined when the positions are in order and
  inside the vector.
\<close>

definition span_elements :: "Span \<Rightarrow> nat list option" where
  "span_elements s =
     (if m_begin s \<le> m_end s \<and> m_end s \<le> length (vec s)
      then Some (take (m_end s - m_begin s) (drop (m_begin s) (vec s)))
      else None)"

subsection \<open>The offset builder \<open>get_indices_offsets\<close>\<close>

text \<open>
  The loop \<^verbatim>\<open>while (i-- > 0) { offsets[i] = *next_e * offsets[i + 1]; ++next_e; }\<close>.
  The first argument is what is left of the range from \<^verbatim>\<open>next_e\<close> to \<^verbatim>\<open>end\<close>, the
  second is \<^verbatim>\<open>i\<close> before the test. The product is one of \<^verbatim>\<open>size_t\<close>.
\<close>

fun offsets_loop :: "nat list \<Rightarrow> nat \<Rightarrow> nat list \<Rightarrow> nat list" where
  "offsets_loop (e # es) (Suc i) offsets =
     offsets_loop es i (offsets[i := size_t_of (e * offsets ! Suc i)])"
| "offsets_loop es i offsets = offsets"

text \<open>
  The range from \<^verbatim>\<open>beg\<close> to \<^verbatim>\<open>end\<close> is given as the list of its elements, in the order
  of the iteration: this is the builder on a range whose \<^verbatim>\<open>end\<close> is not before its
  \<^verbatim>\<open>beg\<close>. A range of negative distance is not a list: at distance \<open>-1\<close> the builder
  returns the empty vector, below that its constructor throws. The calls of this kind
  are in \<open>derive\<close> below.
\<close>

definition get_indices_offsets :: "nat list \<Rightarrow> nat \<Rightarrow> nat list" where
  "get_indices_offsets dims last_slice_size =
     (let i = length dims;
          offsets = replicate (i + 1) last_slice_size
      in offsets_loop dims i offsets)"

subsection \<open>Outcomes, state and loops\<close>

text \<open>
  The three throws of \<^verbatim>\<open>gather_nd\<close>, all of the class \<^verbatim>\<open>std::domain_error\<close>, in the order of
  the source. Their messages:
  \<^item> \<^verbatim>\<open>out_shape should have on first dim multiplication of batch number of first\<close>
    \<^verbatim>\<open>dimensions of shape\<close>;
  \<^item> \<^verbatim>\<open>dimensions in params and indices have to be equal on batch dimensions\<close>;
  \<^item> \<^verbatim>\<open>params_shape should have enough rank to be index by indices\<close>.

  \<open>LengthError\<close> is the \<^verbatim>\<open>std::length_error\<close> that the constructor
  \<^verbatim>\<open>std::vector<size_t> offsets(i + 1, last_slice_size)\<close> of \<^verbatim>\<open>get_indices_offsets\<close> throws
  when \<^verbatim>\<open>i + 1\<close>, converted to \<^verbatim>\<open>size_t\<close>, is more than a vector can hold.
\<close>

datatype exception = OutShapeFirstDim | BatchDimsNotEqual | ParamsRankTooSmall | LengthError

text \<open>
  The specification names two kinds of error: \<open>ShapeMismatch\<close> for the first two throws,
  \<open>InsufficientRank\<close> for the third. It has no name for the fourth exception.
\<close>

datatype error_kind = ShapeMismatch | InsufficientRank | Unnamed

fun kind_of :: "exception \<Rightarrow> error_kind" where
  "kind_of OutShapeFirstDim = ShapeMismatch"
| "kind_of BatchDimsNotEqual = ShapeMismatch"
| "kind_of ParamsRankTooSmall = InsufficientRank"
| "kind_of LengthError = Unnamed"

datatype 's outcome = Normal 's | Throws exception 's | Undefined

type_synonym 'a out_state = "'a list \<times> (nat \<times> 'a) list"

text \<open>
  A loop \<^verbatim>\<open>for (size_t i = 0; i != n; ++i) body\<close> runs the body on \<open>[0..<n]\<close>; \<open>None\<close> is
  an access outside a buffer, after which nothing is defined.
\<close>

fun for_loop :: "(nat \<Rightarrow> 's \<Rightarrow> 's option) \<Rightarrow> nat list \<Rightarrow> 's \<Rightarrow> 's option" where
  "for_loop body [] st = Some st"
| "for_loop body (i # rest) st =
     (case body i st of None \<Rightarrow> None | Some st' \<Rightarrow> for_loop body rest st')"

text \<open>
  \<^verbatim>\<open>std::copy(first, first + n, d_first)\<close> assigns \<^verbatim>\<open>*d_first++ = *first++\<close>, \<open>n\<close> times.
\<close>

fun copy_elements :: "'a list \<Rightarrow> nat \<Rightarrow> nat \<Rightarrow> nat \<Rightarrow> 'a out_state \<Rightarrow> 'a out_state" where
  "copy_elements params first 0 d_first st = st"
| "copy_elements params first (Suc n) d_first (buf, writes) =
     copy_elements params (Suc first) n (Suc d_first)
       (buf[d_first := params ! first], writes @ [(d_first, params ! first)])"

text \<open>
  The source offset is computed in \<^verbatim>\<open>size_t\<close> from signed indices. It is kept as an
  integer here; a negative integer stands for a \<^verbatim>\<open>size_t\<close> beyond every buffer. The copy is
  defined when both ranges lie inside their buffers.
\<close>

definition std_copy :: "'a list \<Rightarrow> int \<Rightarrow> nat \<Rightarrow> nat \<Rightarrow> 'a out_state \<Rightarrow> 'a out_state option" where
  "std_copy params first n d_first st =
     (if 0 \<le> first \<and> nat first + n \<le> length params \<and> d_first + n \<le> length (fst st)
      then Some (copy_elements params (nat first) n d_first st)
      else None)"

subsection \<open>\<open>gather_nd\<close>\<close>

text \<open>The constants that \<^verbatim>\<open>gather_nd\<close> derives from the shapes before its loops.\<close>

record geometry =
  batch_size :: nat
  slice_size :: nat
  indices_offsets :: "nat list"
  batch_offset :: nat
  k_1_params :: Span
  number_of_slices_to_copy_in_one_batch :: nat
  coordinates_size :: nat

text \<open>
  The body of the innermost loop, for coordinate position \<open>c\<close> of the tuple that starts at
  position \<open>slice_coordinates\<close> of the indices buffer:
  \<^verbatim>\<open>i_c = slice_coordinates[c]; index = i_c < 0 ? k_1_params[c] + i_c : i_c;\<close>
  \<^verbatim>\<open>input_slice_offset += index * indices_offsets[c];\<close>
\<close>

definition coordinate_step :: "geometry \<Rightarrow> int list \<Rightarrow> nat \<Rightarrow> nat \<Rightarrow> int \<Rightarrow> int option" where
  "coordinate_step g indices slice_coordinates c input_slice_offset =
     (if slice_coordinates + c < length indices \<and> c < length (indices_offsets g) then
        (let i_c = indices ! (slice_coordinates + c) in
         if i_c < 0 then
           (case span_at (k_1_params g) c of
              None \<Rightarrow> None
            | Some k \<Rightarrow>
                Some (input_slice_offset + (int k + i_c) * int (indices_offsets g ! c)))
         else Some (input_slice_offset + i_c * int (indices_offsets g ! c)))
      else None)"

text \<open>The body of the loop over the slices of one batch.\<close>

definition slice_step ::
  "geometry \<Rightarrow> 'a list \<Rightarrow> int list \<Rightarrow> nat \<Rightarrow> nat \<Rightarrow> 'a out_state \<Rightarrow> 'a out_state option" where
  "slice_step g params indices batch slice st =
     (let input_batch_offset = batch * batch_offset g;
          output_batch_offset =
            batch * number_of_slices_to_copy_in_one_batch g * slice_size g;
          coordinates_batch_offset =
            batch * number_of_slices_to_copy_in_one_batch g * coordinates_size g;
          slice_coordinates = coordinates_batch_offset + slice * coordinates_size g
      in case for_loop (coordinate_step g indices slice_coordinates)
                [0..<coordinates_size g] (int input_batch_offset) of
           None \<Rightarrow> None
         | Some input_slice_offset \<Rightarrow>
             std_copy params input_slice_offset (slice_size g)
               (output_batch_offset + slice * slice_size g) st)"

text \<open>The two outer loops.\<close>

definition copy_loops ::
  "geometry \<Rightarrow> 'a list \<Rightarrow> int list \<Rightarrow> 'a out_state \<Rightarrow> 'a out_state option" where
  "copy_loops g params indices st =
     for_loop
       (\<lambda>batch. for_loop (slice_step g params indices batch)
                  [0..<number_of_slices_to_copy_in_one_batch g])
       [0..<batch_size g] st"

text \<open>
  The statements of \<^verbatim>\<open>gather_nd\<close> before the loops, in the order of the source: the three
  checks and the derived constants. The result is the thrown exception, the constants,
  or \<open>None\<close> where a step has no defined behaviour:
  \<^item> \<^verbatim>\<open>next(begin(params_shape), batch_dims)\<close> past the end of \<^verbatim>\<open>params_shape\<close>;
  \<^item> \<^verbatim>\<open>out_shape.front()\<close> on an empty \<^verbatim>\<open>out_shape\<close> (read only when \<^verbatim>\<open>batch_dims\<close> is not 0);
  \<^item> \<^verbatim>\<open>std::equal\<close> reading \<^verbatim>\<open>batch_dims\<close> entries of a shorter \<^verbatim>\<open>indices_shape\<close>;
  \<^item> \<^verbatim>\<open>indices_shape.back()\<close> on an empty \<^verbatim>\<open>indices_shape\<close>;
  \<^item> a coordinate width of 0: \<^verbatim>\<open>indices_shape.back() - 1\<close> wraps around, the range given to
    \<^verbatim>\<open>get_indices_offsets\<close> has distance \<open>-1\<close>, the table is empty and
    \<^verbatim>\<open>indices_offsets.front()\<close> reads it;
  \<^item> \<^verbatim>\<open>shape_size\<close> on a span whose positions are out of order.

  \<^verbatim>\<open>batch_dims\<close> is an \<^verbatim>\<open>int\<close> in the source; a negative one makes the first iterator
  computation undefined, and the embedding takes a natural number.

  The sum \<^verbatim>\<open>batch_dims + indices_shape.back()\<close> is computed in \<^verbatim>\<open>size_t\<close>, and the third
  check compares what the type leaves of it with the rank. When the check passes
  although the sum exceeds the rank, the sum has wrapped around, by \<open>2 ^ 64\<close>;
  \<^verbatim>\<open>first_slice_index_in_params\<close> is then \<open>batch_dims + indices_shape.back() - 2 ^ 64\<close>,
  and the statements that follow do this:
  \<^item> \<^verbatim>\<open>slice_shape\<close> starts at that position and \<^verbatim>\<open>slice_size\<close> is the product of its
    entries;
  \<^item> \<^verbatim>\<open>dims_begin\<close> is position \<open>rank - first_slice_index_in_params\<close> of the reversed
    \<^verbatim>\<open>params_shape\<close>;
  \<^item> \<^verbatim>\<open>indices_shape.back() - 1\<close>, at least \<open>2 ^ 63\<close> as \<^verbatim>\<open>batch_dims\<close> is at most the
    rank, is converted to the signed difference type of \<^verbatim>\<open>std::next\<close> and is
    \<open>indices_shape.back() - 1 - 2 ^ 64\<close> there, so
    that \<^verbatim>\<open>dims_end\<close> is position \<open>rank - batch_dims - 1\<close>: before the first position when
    \<^verbatim>\<open>batch_dims\<close> equals the rank, which is not defined;
  \<^item> otherwise \<^verbatim>\<open>get_indices_offsets\<close> finds the distance
    \<open>i = indices_shape.back() - 1 - 2 ^ 64\<close>, below \<open>-1\<close>, and constructs its vector with
    \<^verbatim>\<open>i + 1\<close> elements; as a \<^verbatim>\<open>size_t\<close> this is \<^verbatim>\<open>indices_shape.back()\<close>, more than a
    vector can hold, and the constructor throws \<^verbatim>\<open>std::length_error\<close>.

  When the check passes and the sum does not exceed the rank, the sum is below
  \<open>2 ^ 64\<close>, as the length of a vector is, and \<^verbatim>\<open>first_slice_index_in_params\<close> is the sum.
\<close>

datatype derived = Thrown exception | Derived geometry

definition derive :: "Shape \<Rightarrow> Shape \<Rightarrow> Shape \<Rightarrow> nat \<Rightarrow> derived option" where
  "derive params_shape indices_shape out_shape batch_dims =
     (if length params_shape < batch_dims then None
      else
        let batch_shape = take batch_dims params_shape;
            batch_size = shape_size batch_shape
        in
        if batch_dims \<noteq> 0 \<and> out_shape = [] then None
        else if batch_dims \<noteq> 0 \<and> batch_size \<noteq> hd out_shape then Some (Thrown OutShapeFirstDim)
        else if length indices_shape < batch_dims then None
        else if take batch_dims params_shape \<noteq> take batch_dims indices_shape
          then Some (Thrown BatchDimsNotEqual)
        else if indices_shape = [] then None
        else
          let first_slice_index_in_params = batch_dims + last indices_shape in
          if \<not> size_t_of first_slice_index_in_params \<le> length params_shape
            then Some (Thrown ParamsRankTooSmall)
          else if length params_shape < first_slice_index_in_params
            then (if batch_dims < length params_shape then Some (Thrown LengthError) else None)
          else
            let slice_shape = span params_shape first_slice_index_in_params (length params_shape)
            in
            case span_elements slice_shape of
              None \<Rightarrow> None
            | Some slice_dims \<Rightarrow>
                let slice_size = shape_size slice_dims;
                    dims_begin = nat (span_size slice_shape)
                in
                if last indices_shape = 0 then None
                else
                  let dims_end = dims_begin + (last indices_shape - 1);
                      indices_offsets =
                        get_indices_offsets
                          (take (dims_end - dims_begin) (drop dims_begin (rev params_shape)))
                          slice_size
                  in
                  if indices_offsets = [] \<or> \<not> batch_dims < length params_shape then None
                  else
                    let batch_offset =
                          size_t_of (hd indices_offsets * params_shape ! batch_dims);
                        k_1_indices = span indices_shape batch_dims (length indices_shape - 1);
                        k_1_params = span params_shape batch_dims (length params_shape - 1)
                    in
                    (case span_elements k_1_indices of
                       None \<Rightarrow> None
                     | Some k_1_dims \<Rightarrow>
                         Some (Derived
                           \<lparr>batch_size = batch_size,
                            slice_size = slice_size,
                            indices_offsets = indices_offsets,
                            batch_offset = batch_offset,
                            k_1_params = k_1_params,
                            number_of_slices_to_copy_in_one_batch = shape_size k_1_dims,
                            coordinates_size = last indices_shape\<rparr>)))"

definition gather_nd ::
  "'a list \<Rightarrow> int list \<Rightarrow> 'a out_state \<Rightarrow> Shape \<Rightarrow> Shape \<Rightarrow> Shape \<Rightarrow> nat \<Rightarrow> 'a out_state outcome" where
  "gather_nd params indices out params_shape indices_shape out_shape batch_dims =
     (case derive params_shape indices_shape out_shape batch_dims of
        None \<Rightarrow> Undefined
      | Some (Thrown e) \<Rightarrow> Throws e out
      | Some (Derived g) \<Rightarrow>
          (case copy_loops g params indices out of
             None \<Rightarrow> Undefined
           | Some out' \<Rightarrow> Normal out'))"

subsection \<open>Vocabulary of the statements\<close>

text \<open>
  The three invariants of the specification, and what the shapes must satisfy beyond
  them for the statements before the loops to be defined: \<^verbatim>\<open>indices_shape\<close> has an entry
  after its batch prefix, the coordinate width is not 0, and \<^verbatim>\<open>out_shape\<close> has a front to
  read when \<^verbatim>\<open>batch_dims\<close> is not 0.
\<close>

definition invariant_1 :: "Shape \<Rightarrow> Shape \<Rightarrow> nat \<Rightarrow> bool" where
  "invariant_1 params_shape indices_shape batch_dims \<longleftrightarrow>
     take batch_dims params_shape = take batch_dims indices_shape"

definition invariant_2 :: "Shape \<Rightarrow> Shape \<Rightarrow> nat \<Rightarrow> bool" where
  "invariant_2 params_shape indices_shape batch_dims \<longleftrightarrow>
     batch_dims + last indices_shape \<le> length params_shape"

definition invariant_3 :: "Shape \<Rightarrow> Shape \<Rightarrow> nat \<Rightarrow> bool" where
  "invariant_3 params_shape out_shape batch_dims \<longleftrightarrow>
     (0 < batch_dims \<longrightarrow> hd out_shape = shape_size (take batch_dims params_shape))"

definition well_formed :: "Shape \<Rightarrow> Shape \<Rightarrow> nat \<Rightarrow> bool" where
  "well_formed indices_shape out_shape batch_dims \<longleftrightarrow>
     batch_dims < length indices_shape \<and> 0 < last indices_shape \<and>
     (0 < batch_dims \<longrightarrow> out_shape \<noteq> [])"

definition valid_shapes :: "Shape \<Rightarrow> Shape \<Rightarrow> Shape \<Rightarrow> nat \<Rightarrow> bool" where
  "valid_shapes params_shape indices_shape out_shape batch_dims \<longleftrightarrow>
     well_formed indices_shape out_shape batch_dims \<and>
     invariant_1 params_shape indices_shape batch_dims \<and>
     invariant_2 params_shape indices_shape batch_dims \<and>
     invariant_3 params_shape out_shape batch_dims"

text \<open>
  The product of the sizes \<open>dims\<close> of consecutive axes and of \<open>s\<close>, multiplied up from the
  right in \<^verbatim>\<open>size_t\<close>.
\<close>

primrec wrapped_product :: "nat list \<Rightarrow> nat \<Rightarrow> nat" where
  "wrapped_product [] s = s"
| "wrapped_product (d # dims) s = size_t_of (d * wrapped_product dims s)"

text \<open>
  The derived constants in closed form: entry \<open>c\<close> of the offset table is the row-major
  stride of axis \<open>batch_dims + c\<close> of \<^verbatim>\<open>params_shape\<close>, the product of the sizes of the
  indexed axes after it and of the slice size, and \<^verbatim>\<open>batch_offset\<close> is the product of the
  sizes of all indexed axes and of the slice size; both as \<^verbatim>\<open>size_t\<close> leaves them. Lemma
  \<open>derive_Derived_iff\<close> below shows that these are the constants the code computes, and
  lemma \<open>wrapped_product_exact\<close> that a product is the exact one when that is below
  \<open>2 ^ 64\<close> and none of the axes has size 0.
\<close>

definition geometry_of :: "Shape \<Rightarrow> Shape \<Rightarrow> nat \<Rightarrow> geometry" where
  "geometry_of params_shape indices_shape batch_dims =
     \<lparr>batch_size = shape_size (take batch_dims params_shape),
      slice_size = shape_size (drop (batch_dims + last indices_shape) params_shape),
      indices_offsets =
        map (\<lambda>c. wrapped_product
                  (drop (batch_dims + c + 1) (take (batch_dims + last indices_shape) params_shape))
                  (shape_size (drop (batch_dims + last indices_shape) params_shape)))
          [0..<last indices_shape],
      batch_offset =
        wrapped_product
          (drop batch_dims (take (batch_dims + last indices_shape) params_shape))
          (shape_size (drop (batch_dims + last indices_shape) params_shape)),
      k_1_params = span params_shape batch_dims (length params_shape - 1),
      number_of_slices_to_copy_in_one_batch =
        shape_size (drop batch_dims (butlast indices_shape)),
      coordinates_size = last indices_shape\<rparr>"

text \<open>
  The specification's reading of one coordinate component, and of the source offset of
  the tuple \<open>s\<close> of batch \<open>b\<close>: the base offset of the batch plus the dot product of the
  resolved tuple with the offset table.
\<close>

definition resolved_index :: "nat \<Rightarrow> int \<Rightarrow> int" where
  "resolved_index axis_size c = (if c < 0 then c + int axis_size else c)"

definition coordinate_tuple :: "geometry \<Rightarrow> int list \<Rightarrow> nat \<Rightarrow> nat \<Rightarrow> int list" where
  "coordinate_tuple g indices b s =
     take (coordinates_size g)
       (drop ((b * number_of_slices_to_copy_in_one_batch g + s) * coordinates_size g) indices)"

definition tuple_offset :: "geometry \<Rightarrow> Shape \<Rightarrow> nat \<Rightarrow> int list \<Rightarrow> int" where
  "tuple_offset g params_shape batch_dims tuple =
     (\<Sum>c\<leftarrow>[0..<coordinates_size g].
        resolved_index (params_shape ! (batch_dims + c)) (tuple ! c) *
        int (indices_offsets g ! c))"

definition source_offset :: "geometry \<Rightarrow> Shape \<Rightarrow> nat \<Rightarrow> int list \<Rightarrow> nat \<Rightarrow> nat \<Rightarrow> int" where
  "source_offset g params_shape batch_dims indices b s =
     int (b * batch_offset g) +
     tuple_offset g params_shape batch_dims (coordinate_tuple g indices b s)"

definition destination_offset :: "geometry \<Rightarrow> nat \<Rightarrow> nat \<Rightarrow> nat" where
  "destination_offset g b s =
     b * number_of_slices_to_copy_in_one_batch g * slice_size g + s * slice_size g"

text \<open>
  The accesses of the copy for tuple \<open>s\<close> of batch \<open>b\<close> stay inside the three buffers:
  the tuple is inside the indices buffer, the source range inside \<^verbatim>\<open>params\<close> and the
  destination range inside an output buffer of \<open>out_length\<close> elements.
\<close>

definition copy_in_bounds ::
  "geometry \<Rightarrow> Shape \<Rightarrow> nat \<Rightarrow> nat \<Rightarrow> int list \<Rightarrow> nat \<Rightarrow> nat \<Rightarrow> nat \<Rightarrow> bool" where
  "copy_in_bounds g params_shape batch_dims params_length indices out_length b s \<longleftrightarrow>
     (b * number_of_slices_to_copy_in_one_batch g + s) * coordinates_size g + coordinates_size g
       \<le> length indices \<and>
     0 \<le> source_offset g params_shape batch_dims indices b s \<and>
     nat (source_offset g params_shape batch_dims indices b s) + slice_size g \<le> params_length \<and>
     destination_offset g b s + slice_size g \<le> out_length"

text \<open>
  What the copy for tuple \<open>s\<close> of batch \<open>b\<close> moves: the elements read from \<^verbatim>\<open>params\<close>, and
  the element writes in the order \<^verbatim>\<open>std::copy\<close> does them.
\<close>

definition gathered_slice ::
  "geometry \<Rightarrow> Shape \<Rightarrow> nat \<Rightarrow> 'a list \<Rightarrow> int list \<Rightarrow> nat \<Rightarrow> nat \<Rightarrow> 'a list" where
  "gathered_slice g params_shape batch_dims params indices b s =
     take (slice_size g) (drop (nat (source_offset g params_shape batch_dims indices b s)) params)"

definition slice_writes ::
  "geometry \<Rightarrow> Shape \<Rightarrow> nat \<Rightarrow> 'a list \<Rightarrow> int list \<Rightarrow> nat \<Rightarrow> nat \<Rightarrow> (nat \<times> 'a) list" where
  "slice_writes g params_shape batch_dims params indices b s =
     map (\<lambda>e. (destination_offset g b s + e,
                params ! (nat (source_offset g params_shape batch_dims indices b s) + e)))
       [0..<slice_size g]"

definition all_in_bounds ::
  "geometry \<Rightarrow> Shape \<Rightarrow> nat \<Rightarrow> nat \<Rightarrow> int list \<Rightarrow> nat \<Rightarrow> bool" where
  "all_in_bounds g params_shape batch_dims params_length indices out_length \<longleftrightarrow>
     (\<forall>b\<in>set [0..<batch_size g]. \<forall>s\<in>set [0..<number_of_slices_to_copy_in_one_batch g].
        copy_in_bounds g params_shape batch_dims params_length indices out_length b s)"

text \<open>
  The shape of the gathered tensor: the number of batches (when there are batch
  dimensions), the dimensions of \<^verbatim>\<open>indices_shape\<close> between the batch prefix and the
  coordinate width, and the slice shape.
\<close>

definition gathered_shape :: "Shape \<Rightarrow> Shape \<Rightarrow> nat \<Rightarrow> Shape" where
  "gathered_shape params_shape indices_shape batch_dims =
     (if batch_dims = 0 then [] else [shape_size (take batch_dims params_shape)]) @
     drop batch_dims (butlast indices_shape) @
     drop (batch_dims + last indices_shape) params_shape"

text \<open>
  Every component of the indices buffer addresses its axis: negative components count
  from the end of the axis, as the resolution allows.
\<close>

definition coordinates_in_range :: "geometry \<Rightarrow> Shape \<Rightarrow> nat \<Rightarrow> int list \<Rightarrow> bool" where
  "coordinates_in_range g params_shape batch_dims indices \<longleftrightarrow>
     (\<forall>j\<in>set [0..<length indices].
        - int (params_shape ! (batch_dims + j mod coordinates_size g)) \<le> indices ! j \<and>
        indices ! j < int (params_shape ! (batch_dims + j mod coordinates_size g)))"

text \<open>
  The call for batch \<open>b\<close> alone: block \<open>b\<close> of each buffer, the shapes without their batch
  prefix (\<^verbatim>\<open>out_shape\<close> has the one leading entry for it), and \<^verbatim>\<open>batch_dims = 0\<close>.
\<close>

definition block :: "nat \<Rightarrow> nat \<Rightarrow> 'a list \<Rightarrow> 'a list" where
  "block len b xs = take len (drop (b * len) xs)"

definition batch_call ::
  "'a list \<Rightarrow> int list \<Rightarrow> 'a list \<Rightarrow> Shape \<Rightarrow> Shape \<Rightarrow> Shape \<Rightarrow> nat \<Rightarrow> nat \<Rightarrow> 'a out_state outcome" where
  "batch_call params indices out params_shape indices_shape out_shape batch_dims b =
     gather_nd
       (block (shape_size (drop batch_dims params_shape)) b params)
       (block (shape_size (drop batch_dims indices_shape)) b indices)
       (block (shape_size (tl out_shape)) b out, [])
       (drop batch_dims params_shape) (drop batch_dims indices_shape) (tl out_shape) 0"

definition returned_buffer :: "'a out_state outcome \<Rightarrow> 'a list option" where
  "returned_buffer r = (case r of Normal (buf, writes) \<Rightarrow> Some buf | _ \<Rightarrow> None)"

section \<open>The offset builder\<close>

text \<open>For evaluation, \<open>size_t_of\<close> is computed through the integers.\<close>

lemma size_t_of_code [code]: "size_t_of n = nat (int n mod 18446744073709551616)"
  by (simp add: size_t_of_def nat_mod_distrib)

lemma size_t_of_le: "size_t_of n \<le> n"
  by (simp add: size_t_of_def)

lemma size_t_of_less: "n < 2 ^ 64 \<Longrightarrow> size_t_of n = n"
  by (simp add: size_t_of_def)

lemma size_t_of_le_trans: "n \<le> m \<Longrightarrow> size_t_of n \<le> m"
  using size_t_of_le [of n] by simp

lemma foldl_mult_prod_list: "foldl (\<lambda>size d. size * d) a xs = a * prod_list (xs :: nat list)"
  by (induction xs arbitrary: a) (simp_all add: mult.assoc)

lemma shape_size_prod_list: "shape_size xs = prod_list xs"
  by (simp add: shape_size_def foldl_mult_prod_list)

lemma wrapped_product_append:
  "wrapped_product (xs @ ys) s = wrapped_product xs (wrapped_product ys s)"
  by (induction xs) simp_all

lemma wrapped_product_le: "wrapped_product xs s \<le> prod_list xs * s"
proof (induction xs)
  case Nil
  then show ?case by simp
next
  case (Cons d xs)
  have "size_t_of (d * wrapped_product xs s) \<le> d * wrapped_product xs s"
    by (rule size_t_of_le)
  also have "\<dots> \<le> d * (prod_list xs * s)"
    using Cons by (rule mult_le_mono2)
  finally show ?case by (simp add: mult.assoc)
qed

text \<open>
  No product wraps around when no axis has size 0 and the whole product is below
  \<open>2 ^ 64\<close>: the products multiplied up on the way are then no larger than the whole.
\<close>

lemma wrapped_product_exact:
  "\<forall>x\<in>set xs. 0 < x \<Longrightarrow> prod_list xs * s < 2 ^ 64 \<Longrightarrow>
   wrapped_product xs s = prod_list xs * s"
proof (induction xs)
  case Nil
  then show ?case by simp
next
  case (Cons d xs)
  from Cons.prems have d: "0 < d" and lt: "d * (prod_list xs * s) < 2 ^ 64"
    by (simp_all add: mult.assoc)
  have "prod_list xs * s \<le> d * (prod_list xs * s)" using d by simp
  then have "prod_list xs * s < 2 ^ 64" using lt by (rule le_less_trans)
  with Cons have "wrapped_product xs s = prod_list xs * s" by simp
  with lt show ?case by (simp add: size_t_of_less mult.assoc)
qed

lemma wrapped_product_0: "wrapped_product xs 0 = 0"
  by (induction xs) (simp_all add: size_t_of_def)

lemma length_offsets_loop: "length (offsets_loop es i offsets) = length offsets"
  by (induction es i offsets rule: offsets_loop.induct) simp_all

lemma offsets_loop_nth_ge: "i \<le> j \<Longrightarrow> offsets_loop es i offsets ! j = offsets ! j"
  by (induction es i offsets rule: offsets_loop.induct) simp_all

text \<open>
  The loop invariant: with \<open>i\<close> elements left in the range, every entry below \<open>i\<close> ends
  as the product, in \<^verbatim>\<open>size_t\<close>, of the elements visited up to it and of the entry at \<open>i\<close>.
\<close>

lemma offsets_loop_nth:
  "length es = i \<Longrightarrow> i < length offsets \<Longrightarrow> j \<le> i \<Longrightarrow>
   offsets_loop es i offsets ! j = wrapped_product (rev (take (i - j) es)) (offsets ! i)"
proof (induction es i offsets rule: offsets_loop.induct)
  case (1 e es i offsets)
  show ?case
  proof (cases "j = Suc i")
    case True
    then show ?thesis by (simp add: offsets_loop_nth_ge)
  next
    case False
    with 1 have "j \<le> i" by simp
    then show ?thesis using 1 by (simp add: Suc_diff_le wrapped_product_append)
  qed
qed simp_all

lemma length_get_indices_offsets: "length (get_indices_offsets dims s) = length dims + 1"
  by (simp add: get_indices_offsets_def Let_def length_offsets_loop)

lemma get_indices_offsets_nth:
  "j \<le> length dims \<Longrightarrow>
   get_indices_offsets dims s ! j = wrapped_product (drop j (rev dims)) s"
proof -
  assume j: "j \<le> length dims"
  have "offsets_loop dims (length dims) (replicate (length dims + 1) s) ! j
      = wrapped_product (rev (take (length dims - j) dims))
          (replicate (length dims + 1) s ! length dims)"
    by (rule offsets_loop_nth) (use j in simp_all)
  also have "replicate (length dims + 1) s ! length dims = s"
    by (rule nth_replicate) simp
  also have "rev (take (length dims - j) dims) = drop j (rev dims)"
    using j by (simp add: drop_rev)
  finally show ?thesis by (simp add: get_indices_offsets_def Let_def)
qed

lemma get_indices_offsets_step:
  assumes "j < length dims"
  shows "get_indices_offsets dims s ! j =
         size_t_of (rev dims ! j * get_indices_offsets dims s ! Suc j)"
proof -
  have "drop j (rev dims) = rev dims ! j # drop (Suc j) (rev dims)"
    using assms by (simp add: Cons_nth_drop_Suc)
  then show ?thesis using assms by (simp add: get_indices_offsets_nth)
qed

text \<open>
  Claim C6, as amended. The offset builder, given the reversed sizes of the axes
  (\<open>dims\<close>, of any length \<open>n\<close>) and the slice size, returns \<open>n + 1\<close> offsets; the last one is
  the slice size, and every entry before it is the size of the axis at its position
  (position \<open>j\<close> of the axes in their own order, \<open>rev dims\<close>) times the next entry, as
  \<^verbatim>\<open>size_t\<close> computes the product, modulo \<open>2 ^ 64\<close>: it is the product itself when that is
  below \<open>2 ^ 64\<close>.
\<close>

theorem get_indices_offsets_table:
  "length (get_indices_offsets dims s) = length dims + 1 \<and>
   last (get_indices_offsets dims s) = s \<and>
   (\<forall>j<length dims.
      get_indices_offsets dims s ! j =
        (rev dims ! j * get_indices_offsets dims s ! Suc j) mod 2 ^ 64 \<and>
      (rev dims ! j * get_indices_offsets dims s ! Suc j < 2 ^ 64 \<longrightarrow>
         get_indices_offsets dims s ! j = rev dims ! j * get_indices_offsets dims s ! Suc j))"
proof (intro conjI allI impI)
  show "length (get_indices_offsets dims s) = length dims + 1"
    by (rule length_get_indices_offsets)
  show "last (get_indices_offsets dims s) = s"
    by (simp add: last_conv_nth length_get_indices_offsets get_indices_offsets_nth
        flip: length_0_conv)
  show "get_indices_offsets dims s ! j =
      (rev dims ! j * get_indices_offsets dims s ! Suc j) mod 2 ^ 64"
    if "j < length dims" for j
    using get_indices_offsets_step [OF that] by (simp add: size_t_of_def)
  show "get_indices_offsets dims s ! j = rev dims ! j * get_indices_offsets dims s ! Suc j"
    if "j < length dims" "rev dims ! j * get_indices_offsets dims s ! Suc j < 2 ^ 64" for j
    using get_indices_offsets_step [OF that(1)] that(2) by (simp add: size_t_of_less)
qed

theorem get_indices_offsets_table_witness:
  "length (get_indices_offsets [4, 3] 5) = 3 \<and>
   last (get_indices_offsets [4, 3] 5) = 5 \<and>
   get_indices_offsets [4, 3] 5 ! 0 = 3 * get_indices_offsets [4, 3] 5 ! 1 \<and>
   get_indices_offsets [4, 3] 5 ! 1 = 4 * get_indices_offsets [4, 3] 5 ! 2 \<and>
   get_indices_offsets [4, 3] 5 = [60, 20, 5]"
proof -
  have e: "get_indices_offsets [4, 3] 5 = [60, 20, 5]"
    by (simp add: get_indices_offsets_def size_t_of_def)
  show ?thesis
    using get_indices_offsets_table [of "[4, 3]" 5] unfolding e by simp
qed

text \<open>
  Claim C6 as stated fails where a product leaves the range of \<^verbatim>\<open>size_t\<close>. On the two axis sizes \<open>2 ^ 32\<close> and \<open>2 ^ 32\<close> with slice size 1 the builder
  returns the entries 0, \<open>2 ^ 32\<close> and 1: the first entry is not the size of its axis times
  the next entry, which is \<open>2 ^ 64\<close>.
\<close>

theorem get_indices_offsets_wraps_counterexample:
  "get_indices_offsets [4294967296, 4294967296] 1 = [0, 4294967296, 1] \<and>
   get_indices_offsets [4294967296, 4294967296] 1 ! 0 \<noteq>
     rev [4294967296, 4294967296] ! 0 * get_indices_offsets [4294967296, 4294967296] 1 ! Suc 0"
proof -
  have e: "get_indices_offsets [4294967296, 4294967296] 1 = [0, 4294967296, 1]"
    by (simp add: get_indices_offsets_def size_t_of_def)
  show ?thesis unfolding e by simp
qed

section \<open>The statements before the loops\<close>

lemma span_at_span: "span_at (span v b e) idx = (if b + idx < length v then Some (v ! (b + idx)) else None)"
  by (simp add: span_at_def span_def)

lemma span_elements_span:
  "span_elements (span v b e) = (if b \<le> e \<and> e \<le> length v then Some (take (e - b) (drop b v)) else None)"
  by (simp add: span_elements_def span_def)

lemma span_size_span: "span_size (span v b e) = int e - int b"
  by (simp add: span_size_def span_def)

lemma prod_list_drop_split:
  "i \<le> j \<Longrightarrow> prod_list (drop i (take j xs)) * prod_list (drop j xs) = prod_list (drop i (xs::nat list))"
proof -
  assume "i \<le> j"
  then have "drop i xs = drop i (take j xs) @ drop j xs"
    by (metis append_take_drop_id drop_append drop_all length_take min.cobounded2 diff_is_0_eq drop_0 le_trans  linorder_le_cases  min_def take_all)
  then show ?thesis by (metis prod_list.append)
qed

text \<open>
  The table \<^verbatim>\<open>gather_nd\<close> builds. The range it hands to the builder is that of the
  \<open>K - 1\<close> axes after the first indexed one, reversed (\<open>K\<close> the coordinate width), so the
  table has one entry for each coordinate position: entry \<open>c\<close> is the row-major stride of
  axis \<open>B + c\<close>, multiplied up in \<^verbatim>\<open>size_t\<close>.
\<close>

lemma offsets_table:
  assumes "0 < K" "B + K \<le> length ps"
  shows "get_indices_offsets
           (take (K - 1) (drop (length ps - (B + K)) (rev ps)))
           (shape_size (drop (B + K) ps))
         = map (\<lambda>c. wrapped_product (drop (B + c + 1) (take (B + K) ps))
                       (shape_size (drop (B + K) ps))) [0..<K]"
proof (rule nth_equalityI)
  let ?dims = "take (K - 1) (drop (length ps - (B + K)) (rev ps))"
  let ?s = "shape_size (drop (B + K) ps)"
  have len: "length ?dims = K - 1" using assms by simp
  show "length (get_indices_offsets ?dims ?s) =
        length (map (\<lambda>c. wrapped_product (drop (B + c + 1) (take (B + K) ps)) ?s) [0..<K])"
    using assms by (simp add: length_get_indices_offsets)
  fix c assume "c < length (get_indices_offsets ?dims ?s)"
  then have c: "c < K" using assms by (simp add: length_get_indices_offsets)
  have "take (K - 1 - c) ?dims = take (K - 1 - c) (rev (take (B + K) ps))"
    using assms by (simp add: drop_rev min_def)
  also have "\<dots> = rev (drop (B + c + 1) (take (B + K) ps))"
    using assms c by (simp add: take_rev min_def)
  finally have "rev (take (length ?dims - c) ?dims) = drop (B + c + 1) (take (B + K) ps)"
    unfolding len by simp
  then have "drop c (rev ?dims) = drop (B + c + 1) (take (B + K) ps)"
    by (simp only: drop_rev)
  then have "get_indices_offsets ?dims ?s ! c =
      wrapped_product (drop (B + c + 1) (take (B + K) ps)) ?s"
    using c len by (simp add: get_indices_offsets_nth)
  then show "get_indices_offsets ?dims ?s ! c =
     map (\<lambda>c. wrapped_product (drop (B + c + 1) (take (B + K) ps)) ?s) [0..<K] ! c"
    using c by simp
qed

lemma hd_map_upt: "0 < K \<Longrightarrow> hd (map f [0..<K]) = f 0"
  by (simp add: hd_map upt_conv_Cons)

lemma derive_valid:
  assumes "valid_shapes ps is os B"
  shows "derive ps is os B = Some (Derived (geometry_of ps is B))"
proof -
  let ?K = "last is"
  from assms have wf: "B < length is" "0 < ?K" "0 < B \<longrightarrow> os \<noteq> []"
    and i1: "take B ps = take B is" and i2: "B + ?K \<le> length ps"
    and i3: "0 < B \<longrightarrow> hd os = shape_size (take B ps)"
    by (simp_all add: valid_shapes_def well_formed_def invariant_1_def invariant_2_def invariant_3_def)
  have ne: "is \<noteq> []" using wf by auto
  have Bps: "B < length ps" using wf i2 by simp
  have ss: "nat (span_size (span ps (B + ?K) (length ps))) = length ps - (B + ?K)"
    by (simp add: span_size_span)
  have se: "span_elements (span ps (B + ?K) (length ps)) = Some (drop (B + ?K) ps)"
    using i2 by (simp add: span_elements_span)
  have se2: "span_elements (span is B (length is - 1)) = Some (drop B (butlast is))"
    using wf by (simp add: span_elements_span butlast_conv_take drop_take)
  have ar: "length ps - (B + ?K) + (?K - 1) - (length ps - (B + ?K)) = ?K - 1"
    by simp
  let ?s = "shape_size (drop (B + ?K) ps)"
  have tab: "get_indices_offsets
           (take (?K - 1) (drop (length ps - (B + ?K)) (rev ps)))
           (shape_size (drop (B + ?K) ps))
         = map (\<lambda>c. wrapped_product (drop (B + c + 1) (take (B + ?K) ps)) ?s) [0..<?K]"
    using wf i2 by (intro offsets_table) simp_all
  have tab_ne: "map (\<lambda>c. wrapped_product (drop (B + c + 1) (take (B + ?K) ps)) ?s) [0..<?K]
      \<noteq> []"
    using wf by simp
  have "drop B (take (B + ?K) ps) = ps ! B # drop (B + 1) (take (B + ?K) ps)"
    using Bps wf i2 by (simp flip: Cons_nth_drop_Suc)
  then have bo: "size_t_of
        (hd (map (\<lambda>c. wrapped_product (drop (B + c + 1) (take (B + ?K) ps)) ?s) [0..<?K]) *
         ps ! B)
      = wrapped_product (drop B (take (B + ?K) ps)) ?s"
    using wf by (simp add: hd_map_upt mult.commute)
  have c1: "\<not> length ps < B" "\<not> length is < B" "\<not> (B \<noteq> 0 \<and> os = [])"
    "\<not> (B \<noteq> 0 \<and> shape_size (take B ps) \<noteq> hd os)"
    "\<not> \<not> size_t_of (B + ?K) \<le> length ps" "\<not> length ps < B + ?K"
    "\<not> ?K = 0" "\<not> take B ps \<noteq> take B is"
    using wf i1 i2 i3 Bps by (auto simp add: size_t_of_le_trans)
  show ?thesis
    unfolding derive_def Let_def ss se se2 ar tab bo option.case geometry_of_def
    using c1 ne tab_ne Bps by (simp only: if_False if_True simp_thms)
qed

lemma derive_chain:
  "derive ps is os B =
    (if length ps < B then None
     else if B \<noteq> 0 \<and> os = [] then None
     else if B \<noteq> 0 \<and> shape_size (take B ps) \<noteq> hd os then Some (Thrown OutShapeFirstDim)
     else if length is < B then None
     else if take B ps \<noteq> take B is then Some (Thrown BatchDimsNotEqual)
     else if is = [] then None
     else if \<not> size_t_of (B + last is) \<le> length ps then Some (Thrown ParamsRankTooSmall)
     else if length ps < B + last is
       then (if B < length ps then Some (Thrown LengthError) else None)
     else if last is = 0 then None
     else if length is - 1 < B then None
     else Some (Derived (geometry_of ps is B)))"
proof -
  consider (a) "length ps < B"
    | (b) "\<not> length ps < B" "B \<noteq> 0 \<and> os = []"
    | (c) "\<not> length ps < B" "\<not> (B \<noteq> 0 \<and> os = [])" "B \<noteq> 0 \<and> shape_size (take B ps) \<noteq> hd os"
    | (d) "\<not> length ps < B" "\<not> (B \<noteq> 0 \<and> os = [])"
          "\<not> (B \<noteq> 0 \<and> shape_size (take B ps) \<noteq> hd os)" "length is < B"
    | (e) "\<not> length ps < B" "\<not> (B \<noteq> 0 \<and> os = [])"
          "\<not> (B \<noteq> 0 \<and> shape_size (take B ps) \<noteq> hd os)" "\<not> length is < B"
          "take B ps \<noteq> take B is"
    | (f) "\<not> length ps < B" "\<not> (B \<noteq> 0 \<and> os = [])"
          "\<not> (B \<noteq> 0 \<and> shape_size (take B ps) \<noteq> hd os)" "\<not> length is < B"
          "\<not> take B ps \<noteq> take B is" "is = []"
    | (g) "\<not> length ps < B" "\<not> (B \<noteq> 0 \<and> os = [])"
          "\<not> (B \<noteq> 0 \<and> shape_size (take B ps) \<noteq> hd os)" "\<not> length is < B"
          "\<not> take B ps \<noteq> take B is" "\<not> is = []"
          "\<not> size_t_of (B + last is) \<le> length ps"
    | (w) "\<not> length ps < B" "\<not> (B \<noteq> 0 \<and> os = [])"
          "\<not> (B \<noteq> 0 \<and> shape_size (take B ps) \<noteq> hd os)" "\<not> length is < B"
          "\<not> take B ps \<noteq> take B is" "\<not> is = []"
          "\<not> \<not> size_t_of (B + last is) \<le> length ps" "length ps < B + last is"
    | (h) "\<not> length ps < B" "\<not> (B \<noteq> 0 \<and> os = [])"
          "\<not> (B \<noteq> 0 \<and> shape_size (take B ps) \<noteq> hd os)" "\<not> length is < B"
          "\<not> take B ps \<noteq> take B is" "\<not> is = []"
          "\<not> \<not> size_t_of (B + last is) \<le> length ps" "\<not> length ps < B + last is"
          "last is = 0"
    | (i) "\<not> length ps < B" "\<not> (B \<noteq> 0 \<and> os = [])"
          "\<not> (B \<noteq> 0 \<and> shape_size (take B ps) \<noteq> hd os)" "\<not> length is < B"
          "\<not> take B ps \<noteq> take B is" "\<not> is = []"
          "\<not> \<not> size_t_of (B + last is) \<le> length ps" "\<not> length ps < B + last is"
          "\<not> last is = 0" "length is - 1 < B"
    | (j) "\<not> length ps < B" "\<not> (B \<noteq> 0 \<and> os = [])"
          "\<not> (B \<noteq> 0 \<and> shape_size (take B ps) \<noteq> hd os)" "\<not> length is < B"
          "\<not> take B ps \<noteq> take B is" "\<not> is = []"
          "\<not> \<not> size_t_of (B + last is) \<le> length ps" "\<not> length ps < B + last is"
          "\<not> last is = 0" "\<not> length is - 1 < B"
    by blast
  then show ?thesis
  proof cases
    case a then show ?thesis by (simp only: derive_def if_True simp_thms)
  next
    case b then show ?thesis by (simp only: derive_def Let_def if_True if_False simp_thms de_Morgan_conj)
  next
    case c then show ?thesis by (simp only: derive_def Let_def if_True if_False simp_thms de_Morgan_conj)
  next
    case d then show ?thesis by (simp only: derive_def Let_def if_True if_False simp_thms de_Morgan_conj)
  next
    case e then show ?thesis by (simp only: derive_def Let_def if_True if_False simp_thms de_Morgan_conj)
  next
    case f then show ?thesis by (simp only: derive_def Let_def if_True if_False simp_thms de_Morgan_conj)
  next
    case g then show ?thesis by (simp only: derive_def Let_def if_True if_False simp_thms de_Morgan_conj)
  next
    case w then show ?thesis by (simp only: derive_def Let_def if_True if_False simp_thms de_Morgan_conj)
  next
    case h
    then have "span_elements (span ps (B + last is) (length ps)) = Some (drop (B + last is) ps)"
      by (simp add: span_elements_span)
    with h show ?thesis by (simp only: derive_def Let_def if_True if_False option.case simp_thms de_Morgan_conj)
  next
    case i
    then have 1: "span_elements (span ps (B + last is) (length ps)) = Some (drop (B + last is) ps)"
      by (simp add: span_elements_span)
    from i have 2: "span_elements (span is B (length is - 1)) = None"
      by (simp add: span_elements_span)
    from i 1 2 show ?thesis
      by (simp only: derive_def Let_def if_True if_False option.case if_cancel simp_thms de_Morgan_conj)
  next
    case j
    then have "0 < length is" by simp
    with j have "B < length is" by linarith
    with j have "valid_shapes ps is os B"
      by (auto simp: valid_shapes_def well_formed_def invariant_1_def invariant_2_def
          invariant_3_def)
    then have "derive ps is os B = Some (Derived (geometry_of ps is B))"
      by (rule derive_valid)
    with j show ?thesis by (simp only: if_False simp_thms)
  qed
qed

lemma derive_Derived_iff:
  "derive ps is os B = Some (Derived g) \<longleftrightarrow> valid_shapes ps is os B \<and> g = geometry_of ps is B"
proof
  assume "derive ps is os B = Some (Derived g)"
  then have *: "\<not> length ps < B" "\<not> (B \<noteq> 0 \<and> os = [])"
          "\<not> (B \<noteq> 0 \<and> shape_size (take B ps) \<noteq> hd os)" "\<not> length is < B"
          "\<not> take B ps \<noteq> take B is" "\<not> is = []" "\<not> length ps < B + last is"
          "\<not> last is = 0" "\<not> length is - 1 < B" and g: "g = geometry_of ps is B"
    unfolding derive_chain by (simp_all split: if_splits)
  from * have "0 < length is" by simp
  with * have "B < length is" by linarith
  with * have "valid_shapes ps is os B"
    by (auto simp: valid_shapes_def well_formed_def invariant_1_def invariant_2_def
        invariant_3_def)
  with g show "valid_shapes ps is os B \<and> g = geometry_of ps is B" by simp
next
  assume "valid_shapes ps is os B \<and> g = geometry_of ps is B"
  then show "derive ps is os B = Some (Derived g)" by (simp add: derive_valid)
qed

lemma gather_nd_Throws_iff:
  "gather_nd params indices out ps is os B = Throws e st \<longleftrightarrow>
   derive ps is os B = Some (Thrown e) \<and> st = out"
  by (auto simp: gather_nd_def split: option.splits derived.splits)

lemma geometry_of_simps:
  "batch_size (geometry_of ps is B) = shape_size (take B ps)"
  "slice_size (geometry_of ps is B) = shape_size (drop (B + last is) ps)"
  "indices_offsets (geometry_of ps is B) =
     map (\<lambda>c. wrapped_product (drop (B + c + 1) (take (B + last is) ps))
                 (shape_size (drop (B + last is) ps))) [0..<last is]"
  "batch_offset (geometry_of ps is B) =
     wrapped_product (drop B (take (B + last is) ps)) (shape_size (drop (B + last is) ps))"
  "k_1_params (geometry_of ps is B) = span ps B (length ps - 1)"
  "number_of_slices_to_copy_in_one_batch (geometry_of ps is B) =
     shape_size (drop B (butlast is))"
  "coordinates_size (geometry_of ps is B) = last is"
  by (simp_all add: geometry_of_def)

lemma span_at_k_1_params:
  assumes "derive ps is os B = Some (Derived g)" and "c < coordinates_size g"
  shows "span_at (k_1_params g) c = Some (ps ! (B + c))" and "B + c < length ps"
proof -
  from assms(1) have v: "valid_shapes ps is os B" and g: "g = geometry_of ps is B"
    by (simp_all add: derive_Derived_iff)
  from v have "B + last is \<le> length ps"
    by (simp add: valid_shapes_def invariant_2_def)
  with assms(2) show "B + c < length ps"
    by (simp add: g geometry_of_simps)
  then show "span_at (k_1_params g) c = Some (ps ! (B + c))"
    by (simp add: g geometry_of_simps span_at_span)
qed

text \<open>
  Claim C3. When the first \<open>B\<close> entries of \<^verbatim>\<open>params_shape\<close> and \<^verbatim>\<open>indices_shape\<close> differ
  (both shapes having that many entries, and \<^verbatim>\<open>out_shape\<close> a front to read), \<^verbatim>\<open>gather_nd\<close>
  throws an error of the kind \<open>ShapeMismatch\<close> and the output state is the one it was
  called with: nothing is written. More generally, whenever \<^verbatim>\<open>gather_nd\<close> throws, the
  error is the one found from the shapes alone, before the loops, and the output state
  is unchanged.
\<close>

theorem batch_prefix_mismatch_throws:
  "(B \<le> length ps \<and> B \<le> length is \<and> os \<noteq> [] \<and> take B ps \<noteq> take B is \<longrightarrow>
      (\<exists>e. gather_nd params indices out ps is os B = Throws e out \<and> kind_of e = ShapeMismatch)) \<and>
   (\<forall>e st. gather_nd params indices out ps is os B = Throws e st \<longrightarrow>
      st = out \<and> derive ps is os B = Some (Thrown e))"
proof (intro conjI impI allI)
  assume a: "B \<le> length ps \<and> B \<le> length is \<and> os \<noteq> [] \<and> take B ps \<noteq> take B is"
  show "\<exists>e. gather_nd params indices out ps is os B = Throws e out \<and> kind_of e = ShapeMismatch"
  proof (cases "shape_size (take B ps) = hd os")
    case True
    with a have "derive ps is os B = Some (Thrown BatchDimsNotEqual)"
      by (simp add: derive_chain)
    then show ?thesis by (simp add: gather_nd_Throws_iff)
  next
    case False
    from a have "B \<noteq> 0" by (cases B) auto
    with a False have "derive ps is os B = Some (Thrown OutShapeFirstDim)"
      by (simp add: derive_chain)
    then show ?thesis by (simp add: gather_nd_Throws_iff)
  qed
next
  fix e st assume "gather_nd params indices out ps is os B = Throws e st"
  then show "st = out" "derive ps is os B = Some (Thrown e)"
    by (simp_all add: gather_nd_Throws_iff)
qed

theorem batch_prefix_mismatch_throws_witness:
  "take 1 [2, 3, 4] \<noteq> take 1 [3, 1::nat] \<and>
   (\<exists>e. gather_nd [0..<24] [0] ([7, 7, 7, 7], []) [2, 3, 4] [3, 1] [2] 1
           = Throws e ([7, 7, 7, 7], []) \<and> kind_of e = ShapeMismatch)"
  using batch_prefix_mismatch_throws [of 1 "[2, 3, 4]" "[3, 1]" "[2]" "[0..<24]" "[0]" "([7, 7, 7, 7], [])"]
  by simp

text \<open>
  Claim C4, as amended. With \<^verbatim>\<open>batch_dims\<close> within both ranks, \<^verbatim>\<open>indices_shape\<close> not
  empty, \<^verbatim>\<open>out_shape\<close> not empty when \<^verbatim>\<open>batch_dims\<close> is positive, and invariants 1 and 3
  holding: when \<^verbatim>\<open>batch_dims + indices_shape.back()\<close> is below \<open>2 ^ 64\<close>, \<^verbatim>\<open>gather_nd\<close> throws
  an error of the kind \<open>InsufficientRank\<close> if and only if the sum exceeds the rank of
  \<^verbatim>\<open>params_shape\<close>. Whatever the sum, \<^verbatim>\<open>gather_nd\<close> throws an error of this kind only if
  the sum exceeds the rank; the error is the third throw, and it leaves the output state
  as it was, with no write done.
\<close>

theorem insufficient_rank_iff:
  assumes "B \<le> length ps" "B \<le> length is" "is \<noteq> []" "0 < B \<longrightarrow> os \<noteq> []"
    and "invariant_1 ps is B" "invariant_3 ps os B"
  shows "(B + last is < 2 ^ 64 \<longrightarrow>
            ((\<exists>e st. gather_nd params indices out ps is os B = Throws e st \<and>
                kind_of e = InsufficientRank) \<longleftrightarrow> length ps < B + last is)) \<and>
         (\<forall>e st. gather_nd params indices out ps is os B = Throws e st \<and>
                kind_of e = InsufficientRank \<longrightarrow>
            length ps < B + last is \<and> e = ParamsRankTooSmall \<and> st = out)"
proof -
  have d: "derive ps is os B =
     (if \<not> size_t_of (B + last is) \<le> length ps then Some (Thrown ParamsRankTooSmall)
      else if length ps < B + last is
        then (if B < length ps then Some (Thrown LengthError) else None)
      else if last is = 0 then None
      else if length is - 1 < B then None
      else Some (Derived (geometry_of ps is B)))"
    using assms by (auto simp add: derive_chain invariant_1_def invariant_3_def)
  have only_if: "length ps < B + last is \<and> e = ParamsRankTooSmall \<and> st = out"
    if "gather_nd params indices out ps is os B = Throws e st" "kind_of e = InsufficientRank"
    for e st
  proof -
    from that(1) have t: "derive ps is os B = Some (Thrown e)" and st: "st = out"
      by (simp_all add: gather_nd_Throws_iff)
    from that(2) have e: "e = ParamsRankTooSmall" by (cases e) simp_all
    from t e have "\<not> size_t_of (B + last is) \<le> length ps"
      unfolding d by (simp split: if_splits)
    then have "length ps < B + last is"
      using size_t_of_le [of "B + last is"] by linarith
    with e st show ?thesis by simp
  qed
  have "if": "\<exists>e st. gather_nd params indices out ps is os B = Throws e st \<and>
                kind_of e = InsufficientRank"
    if "B + last is < 2 ^ 64" "length ps < B + last is"
  proof -
    from that have "derive ps is os B = Some (Thrown ParamsRankTooSmall)"
      unfolding d by (simp add: size_t_of_less)
    then have "gather_nd params indices out ps is os B = Throws ParamsRankTooSmall out"
      by (simp add: gather_nd_Throws_iff)
    then show ?thesis by simp
  qed
  from only_if "if" show ?thesis by blast
qed

theorem insufficient_rank_iff_witness:
  "(\<exists>e st. gather_nd [0..<24] [0, 0, 0, 0] ([7, 7], []) [2, 3, 4] [2, 3] [2] 1 = Throws e st \<and>
             kind_of e = InsufficientRank) \<and>
   gather_nd [0..<24] [0, 0, 0, 0] ([7, 7], []) [2, 3, 4] [2, 2] [2] 1 =
     Normal ([0, 12], [(0, 0), (1, 12)]) \<and>
   \<not> (\<exists>e st. gather_nd [0..<24] [0, 0, 0, 0] ([7, 7], []) [2, 3, 4] [2, 2] [2] 1 = Throws e st \<and>
             kind_of e = InsufficientRank)"
proof -
  have r: "gather_nd [0..<24] [0, 0, 0, 0] ([7, 7], []) [2, 3, 4] [2, 2] [2] 1 =
     Normal ([0, 12], [(0, 0), (1, 12::nat)])"
    by code_simp
  have h: "1 \<le> length [2, 3, 4::nat]" "1 \<le> length [2, 3::nat]" "1 \<le> length [2, 2::nat]"
    "[2, 3::nat] \<noteq> []" "[2, 2::nat] \<noteq> []" "0 < (1::nat) \<longrightarrow> [2::nat] \<noteq> []"
    by simp_all
  have i1: "invariant_1 [2, 3, 4] [2, 3] 1" "invariant_1 [2, 3, 4] [2, 2] 1"
    by (simp_all add: invariant_1_def)
  have i3: "invariant_3 [2, 3, 4] [2] 1"
    by (simp add: invariant_3_def shape_size_def)
  have a: "1 + last [2, 3::nat] < 2 ^ 64" "length [2, 3, 4::nat] < 1 + last [2, 3::nat]"
    by simp_all
  have b: "1 + last [2, 2::nat] < 2 ^ 64" "\<not> length [2, 3, 4::nat] < 1 + last [2, 2::nat]"
    by simp_all
  from insufficient_rank_iff [OF h(1,2,4,6) i1(1) i3, of "[0..<24]" "[0, 0, 0, 0]" "([7, 7], [])"] a
  have c1: "\<exists>e st. gather_nd [0..<24] [0, 0, 0, 0] ([7, 7], []) [2, 3, 4] [2, 3] [2] 1 =
      Throws e st \<and> kind_of e = InsufficientRank"
    by blast
  from insufficient_rank_iff [OF h(1,3,5,6) i1(2) i3, of "[0..<24]" "[0, 0, 0, 0]" "([7, 7], [])"] b
  have c2: "\<not> (\<exists>e st. gather_nd [0..<24] [0, 0, 0, 0] ([7, 7], []) [2, 3, 4] [2, 2] [2] 1 =
      Throws e st \<and> kind_of e = InsufficientRank)"
    by blast
  from c1 r c2 show ?thesis by (intro conjI)
qed

text \<open>
  Claim C4 as stated fails where the sum leaves the range of \<^verbatim>\<open>size_t\<close>. With \<^verbatim>\<open>params_shape = [0, 3]\<close>, \<^verbatim>\<open>indices_shape = [0, 2^64 - 1]\<close>,
  \<^verbatim>\<open>out_shape = [0]\<close> and \<^verbatim>\<open>batch_dims = 1\<close> (tensors without elements) invariants 1 and 3
  hold and the sum \<open>2 ^ 64\<close> exceeds the rank 2; the sum wraps around to 0, the third check
  passes, and the exception that comes out is the \<^verbatim>\<open>std::length_error\<close> of the offset
  builder, which is not of the kind \<open>InsufficientRank\<close>.
\<close>

theorem insufficient_rank_wraps_counterexample:
  "invariant_1 [0, 3] [0, 18446744073709551615] 1 \<and>
   invariant_3 [0, 3] [0] 1 \<and>
   length [0, 3::nat] < 1 + last [0, 18446744073709551615::nat] \<and>
   gather_nd ([]::nat list) [] ([], []) [0, 3] [0, 18446744073709551615] [0] 1 =
     Throws LengthError ([], []) \<and>
   kind_of LengthError \<noteq> InsufficientRank"
  by (simp add: invariant_1_def invariant_3_def shape_size_def gather_nd_def derive_chain
      size_t_of_def)

text \<open>
  Claim C9. For valid shapes and every coordinate position \<open>c\<close> below the coordinate
  width, the read \<^verbatim>\<open>k_1_params[c]\<close> is defined, yields \<^verbatim>\<open>params_shape[batch_dims + c]\<close>, and
  \<open>batch_dims + c\<close> is below the rank. When \<^verbatim>\<open>batch_dims + indices_shape.back()\<close> equals
  the rank, the size of the span is the coordinate width minus one, so that the last
  coordinate position is the index one past the end of the span; the read there yields
  the last axis size of \<^verbatim>\<open>params_shape\<close>.
\<close>

theorem k_1_params_read_in_range:
  assumes "derive ps is os B = Some (Derived g)" and "c < coordinates_size g"
  shows "span_at (k_1_params g) c = Some (ps ! (B + c)) \<and> B + c < length ps \<and>
         (B + coordinates_size g = length ps \<longrightarrow>
            span_size (k_1_params g) = int (coordinates_size g) - 1 \<and>
            span_at (k_1_params g) (coordinates_size g - 1) = Some (last ps))"
proof -
  from assms(1) have g: "g = geometry_of ps is B"
    by (simp add: derive_Derived_iff)
  have k1: "k_1_params g = span ps B (length ps - 1)"
    by (simp add: g geometry_of_simps)
  have lt: "B + c < length ps" and rd: "span_at (k_1_params g) c = Some (ps ! (B + c))"
    using span_at_k_1_params [OF assms] by simp_all
  from lt have ne: "ps \<noteq> []" by auto
  have "span_size (k_1_params g) = int (coordinates_size g) - 1"
    and "span_at (k_1_params g) (coordinates_size g - 1) = Some (last ps)"
    if "B + coordinates_size g = length ps"
    using that assms(2) ne
    by (simp_all add: k1 span_at_span span_size_span last_conv_nth of_nat_diff)
  with lt rd show ?thesis by blast
qed

theorem k_1_params_read_in_range_witness:
  "span_at (k_1_params (geometry_of [2, 3, 4] [1, 3] 0)) 2 = Some 4 \<and>
   span_size (k_1_params (geometry_of [2, 3, 4] [1, 3] 0)) = 2 \<and>
   span_at (k_1_params (geometry_of [2, 3, 4] [1, 3] 0)) 0 = Some 2"
  using k_1_params_read_in_range
      [of "[2, 3, 4]" "[1, 3]" "[1]" 0 "geometry_of [2, 3, 4] [1, 3] 0" 2]
    k_1_params_read_in_range
      [of "[2, 3, 4]" "[1, 3]" "[1]" 0 "geometry_of [2, 3, 4] [1, 3] 0" 0]
  by (simp add: derive_Derived_iff valid_shapes_def well_formed_def invariant_1_def
      invariant_2_def invariant_3_def geometry_of_def)

text \<open>
  Claim C10. With \<^verbatim>\<open>batch_dims = 0\<close> the result of \<^verbatim>\<open>gather_nd\<close>, and already the outcome
  of the statements before the loops, is the same for any two values of \<^verbatim>\<open>out_shape\<close>:
  \<^verbatim>\<open>out_shape\<close> is not looked at. When invariants 1 and 2 hold (on a non-empty
  \<^verbatim>\<open>indices_shape\<close>) nothing is thrown, and with a coordinate width above 0 the constants
  are derived and the loops are entered.
\<close>

theorem no_out_shape_check_without_batch:
  "gather_nd params indices out ps is os 0 = gather_nd params indices out ps is os' 0 \<and>
   derive ps is os 0 = derive ps is os' 0 \<and>
   (is \<noteq> [] \<and> invariant_1 ps is 0 \<and> invariant_2 ps is 0 \<longrightarrow>
      (\<forall>e. derive ps is os 0 \<noteq> Some (Thrown e))) \<and>
   (is \<noteq> [] \<and> 0 < last is \<and> invariant_1 ps is 0 \<and> invariant_2 ps is 0 \<longrightarrow>
      derive ps is os 0 = Some (Derived (geometry_of ps is 0)))"
proof -
  have d: "derive ps is os 0 = derive ps is os' 0" for os os'
    by (simp add: derive_chain)
  have "gather_nd params indices out ps is os 0 = gather_nd params indices out ps is os' 0"
    by (simp add: gather_nd_def d [of os os'])
  moreover have "derive ps is os 0 \<noteq> Some (Thrown e)" if "is \<noteq> []" "invariant_2 ps is 0" for e
    using that by (simp add: derive_chain invariant_2_def size_t_of_le_trans)
  moreover have "derive ps is os 0 = Some (Derived (geometry_of ps is 0))"
    if "is \<noteq> []" "0 < last is" "invariant_2 ps is 0"
    using that by (simp add: derive_chain invariant_2_def size_t_of_le_trans)
  ultimately show ?thesis using d [of os os'] by blast
qed

theorem no_out_shape_check_without_batch_witness:
  "gather_nd [0..<24] [1, 2] ([9, 9, 9, 9], []) [2, 3, 4] [1, 2] [1, 4] 0 =
   gather_nd [0..<24::nat] [1, 2] ([9, 9, 9, 9], []) [2, 3, 4] [1, 2] [7, 7, 7] 0 \<and>
   derive [2, 3, 4] [1, 2] [] 0 = Some (Derived (geometry_of [2, 3, 4] [1, 2] 0))"
  using no_out_shape_check_without_batch
      [of "[0..<24]" "[1, 2]" "([9, 9, 9, 9], [])" "[2, 3, 4]" "[1, 2]" "[1, 4]" "[7, 7, 7]"]
    no_out_shape_check_without_batch
      [of "[0..<24]" "[1, 2]" "([9, 9, 9, 9], [])" "[2, 3, 4]" "[1, 2]" "[]" "[]"]
  by (simp add: invariant_1_def invariant_2_def)

section \<open>The loops\<close>

lemma all_in_bounds_iff:
  "all_in_bounds g ps B params_length indices out_length \<longleftrightarrow>
     (\<forall>b<batch_size g. \<forall>s<number_of_slices_to_copy_in_one_batch g.
        copy_in_bounds g ps B params_length indices out_length b s)"
  by (auto simp add: all_in_bounds_def)

lemma coordinates_in_range_iff:
  "coordinates_in_range g ps B indices \<longleftrightarrow>
     (\<forall>j<length indices.
        - int (ps ! (B + j mod coordinates_size g)) \<le> indices ! j \<and>
        indices ! j < int (ps ! (B + j mod coordinates_size g)))"
  by (auto simp add: coordinates_in_range_def)

lemma for_loop_append:
  "for_loop body (xs @ ys) st =
     (case for_loop body xs st of None \<Rightarrow> None | Some st' \<Rightarrow> for_loop body ys st')"
  by (induction xs arbitrary: st) (simp_all split: option.splits)

lemma for_loop_cong:
  "(\<And>i st. i \<in> set xs \<Longrightarrow> f i st = g i st) \<Longrightarrow> for_loop f xs st = for_loop g xs st"
  by (induction xs arbitrary: st) (simp_all split: option.splits)

lemma copy_elements_closed:
  "first + n \<le> length params \<Longrightarrow> d + n \<le> length buf \<Longrightarrow>
   copy_elements params first n d (buf, w) =
     (take d buf @ take n (drop first params) @ drop (d + n) buf,
      w @ map (\<lambda>e. (d + e, params ! (first + e))) [0..<n])"
proof (induction n arbitrary: first d buf w)
  case 0
  then show ?case by simp
next
  case (Suc n)
  have a: "take (Suc d) (buf[d := params ! first]) = take d buf @ [params ! first]"
    using Suc.prems by (simp add: take_Suc_conv_app_nth)
  have b: "take (Suc n) (drop first params) = params ! first # take n (drop (Suc first) params)"
    using Suc.prems by (simp flip: Cons_nth_drop_Suc)
  have c: "map (\<lambda>e. (d + e, params ! (first + e))) [0..<Suc n] =
      (d, params ! first) # map (\<lambda>e. (Suc d + e, params ! (Suc first + e))) [0..<n]"
    by (simp add: map_upt_Suc del: upt_Suc)
  have "copy_elements params first (Suc n) d (buf, w) =
      copy_elements params (Suc first) n (Suc d)
        (buf[d := params ! first], w @ [(d, params ! first)])"
    by simp
  also have "\<dots> = (take (Suc d) (buf[d := params ! first]) @ take n (drop (Suc first) params) @
        drop (Suc d + n) (buf[d := params ! first]),
      (w @ [(d, params ! first)]) @ map (\<lambda>e. (Suc d + e, params ! (Suc first + e))) [0..<n])"
    using Suc.prems by (intro Suc.IH) simp_all
  also have "\<dots> = (take d buf @ take (Suc n) (drop first params) @ drop (d + Suc n) buf,
      w @ map (\<lambda>e. (d + e, params ! (first + e))) [0..<Suc n])"
    unfolding a b c by simp
  finally show ?case .
qed

lemma coordinate_step_closed:
  assumes "derive ps is os B = Some (Derived g)" and "c < coordinates_size g"
  shows "coordinate_step g indices pos c acc =
    (if pos + c < length indices
     then Some (acc + resolved_index (ps ! (B + c)) (indices ! (pos + c)) *
                      int (indices_offsets g ! c))
     else None)"
proof -
  from assms(1) have g: "g = geometry_of ps is B" by (simp add: derive_Derived_iff)
  have len: "c < length (indices_offsets g)"
    using assms(2) by (simp add: g geometry_of_simps)
  have sp: "span_at (k_1_params g) c = Some (ps ! (B + c))"
    using assms by (rule span_at_k_1_params)
  show ?thesis
    by (simp add: coordinate_step_def Let_def len sp resolved_index_def add.commute)
qed

lemma coordinate_loop_closed:
  assumes "derive ps is os B = Some (Derived g)" and "m \<le> coordinates_size g"
  shows "for_loop (coordinate_step g indices pos) [0..<m] acc =
    (if m = 0 \<or> pos + m \<le> length indices
     then Some (acc + (\<Sum>c\<leftarrow>[0..<m]. resolved_index (ps ! (B + c)) (indices ! (pos + c)) *
                      int (indices_offsets g ! c)))
     else None)"
  using assms(2)
proof (induction m)
  case 0
  then show ?case by simp
next
  case (Suc m)
  then have m: "m < coordinates_size g" and IH: "for_loop (coordinate_step g indices pos) [0..<m] acc =
    (if m = 0 \<or> pos + m \<le> length indices
     then Some (acc + (\<Sum>c\<leftarrow>[0..<m]. resolved_index (ps ! (B + c)) (indices ! (pos + c)) *
                      int (indices_offsets g ! c)))
     else None)" by simp_all
  show ?case
    unfolding upt_Suc_append [OF le0] for_loop_append IH
    by (simp add: coordinate_step_closed [OF assms(1) m])
qed

lemma coordinate_tuple_nth:
  assumes "c < coordinates_size g"
    and "(b * number_of_slices_to_copy_in_one_batch g + s) * coordinates_size g + coordinates_size g
       \<le> length indices"
  shows "coordinate_tuple g indices b s ! c =
     indices ! ((b * number_of_slices_to_copy_in_one_batch g + s) * coordinates_size g + c)"
  using assms by (simp add: coordinate_tuple_def)

lemma slice_step_closed:
  assumes d: "derive ps is os B = Some (Derived g)"
  shows "slice_step g params indices b s (buf, w) =
    (if copy_in_bounds g ps B (length params) indices (length buf) b s
     then Some (take (destination_offset g b s) buf @
                take (slice_size g) (drop (nat (source_offset g ps B indices b s)) params) @
                drop (destination_offset g b s + slice_size g) buf,
                w @ map (\<lambda>e. (destination_offset g b s + e,
                               params ! (nat (source_offset g ps B indices b s) + e)))
                      [0..<slice_size g])
     else None)"
proof -
  let ?n = "number_of_slices_to_copy_in_one_batch g"
  let ?K = "coordinates_size g"
  let ?pos = "(b * ?n + s) * ?K"
  from d have "valid_shapes ps is os B" "g = geometry_of ps is B"
    by (simp_all add: derive_Derived_iff)
  then have K: "0 < ?K" by (simp add: valid_shapes_def well_formed_def geometry_of_simps)
  have pos: "b * ?n * ?K + s * ?K = ?pos" by (simp add: algebra_simps)
  have loop: "for_loop (coordinate_step g indices ?pos) [0..<?K] (int (b * batch_offset g)) =
    (if ?pos + ?K \<le> length indices
     then Some (int (b * batch_offset g) +
            (\<Sum>c\<leftarrow>[0..<?K]. resolved_index (ps ! (B + c)) (indices ! (?pos + c)) *
                      int (indices_offsets g ! c)))
     else None)"
    using K by (simp add: coordinate_loop_closed [OF d])
  have src: "int (b * batch_offset g) +
            (\<Sum>c\<leftarrow>[0..<?K]. resolved_index (ps ! (B + c)) (indices ! (?pos + c)) *
                      int (indices_offsets g ! c)) = source_offset g ps B indices b s"
    if "?pos + ?K \<le> length indices"
    unfolding source_offset_def tuple_offset_def
    by (intro arg_cong2 [where f = "(+)"] refl arg_cong [where f = sum_list] map_cong)
       (simp add: coordinate_tuple_nth [OF _ that])
  have unf: "slice_step g params indices b s (buf, w) =
    (case for_loop (coordinate_step g indices ?pos) [0..<?K] (int (b * batch_offset g)) of
       None \<Rightarrow> None
     | Some input_slice_offset \<Rightarrow>
         std_copy params input_slice_offset (slice_size g) (destination_offset g b s) (buf, w))"
    by (simp only: slice_step_def Let_def pos destination_offset_def)
  show ?thesis
  proof (cases "?pos + ?K \<le> length indices")
    case False
    then show ?thesis
      unfolding unf loop by (simp add: copy_in_bounds_def)
  next
    case True
    have unf': "slice_step g params indices b s (buf, w) =
       std_copy params (source_offset g ps B indices b s) (slice_size g)
         (destination_offset g b s) (buf, w)"
      unfolding unf loop using True by (simp only: if_True option.case src [OF True])
    show ?thesis
    proof (cases "0 \<le> source_offset g ps B indices b s \<and>
        nat (source_offset g ps B indices b s) + slice_size g \<le> length params \<and>
        destination_offset g b s + slice_size g \<le> length buf")
      case False
      then show ?thesis
        unfolding unf' by (auto simp add: copy_in_bounds_def std_copy_def)
    next
      case inb: True
      with True have "copy_in_bounds g ps B (length params) indices (length buf) b s"
        by (simp add: copy_in_bounds_def)
      then show ?thesis
        unfolding unf' using inb by (simp add: std_copy_def copy_elements_closed)
    qed
  qed
qed

lemma length_concat_chunks:
  "(\<And>i. i < m \<Longrightarrow> length (chunk i) = L) \<Longrightarrow> length (concat (map chunk [0..<m])) = m * L"
  by (induction m) simp_all

lemma for_loop_chunks:
  assumes "\<And>i buf w. i < m \<Longrightarrow> length buf = len \<Longrightarrow>
      body i (buf, w) =
        (if ok i then Some (take (base + i * L) buf @ chunk i @ drop (base + i * L + L) buf,
                            w @ wr i)
         else None)"
    and "\<And>i. i < m \<Longrightarrow> ok i \<Longrightarrow> length (chunk i) = L"
    and "\<And>i. i < m \<Longrightarrow> ok i \<Longrightarrow> base + i * L + L \<le> len"
    and "length buf = len"
  shows "for_loop body [0..<m] (buf, w) =
    (if \<forall>i<m. ok i
     then Some (take base buf @ concat (map chunk [0..<m]) @ drop (base + m * L) buf,
                w @ concat (map wr [0..<m]))
     else None)"
  using assms
proof (induction m)
  case 0
  then show ?case by simp
next
  case (Suc m)
  have IH: "for_loop body [0..<m] (buf, w) =
    (if \<forall>i<m. ok i
     then Some (take base buf @ concat (map chunk [0..<m]) @ drop (base + m * L) buf,
                w @ concat (map wr [0..<m]))
     else None)"
    by (rule Suc.IH) (use Suc.prems in simp_all)
  have eq: "for_loop body [0..<Suc m] (buf, w) =
      (case for_loop body [0..<m] (buf, w) of None \<Rightarrow> None | Some st' \<Rightarrow> body m st')"
    by (simp add: for_loop_append split: option.splits)
  show ?case
  proof (cases "\<forall>i<m. ok i")
    case False
    then have n: "\<not> (\<forall>i<Suc m. ok i)" using less_Suc_eq by blast
    from False have "for_loop body [0..<m] (buf, w) = None"
      unfolding IH by simp
    then have "for_loop body [0..<Suc m] (buf, w) = None"
      unfolding eq by simp
    with n show ?thesis by simp
  next
    case True
    let ?B = "take base buf @ concat (map chunk [0..<m]) @ drop (base + m * L) buf"
    let ?W = "w @ concat (map wr [0..<m])"
    from True have run: "for_loop body [0..<m] (buf, w) = Some (?B, ?W)"
      unfolding IH by simp
    have lc: "length (concat (map chunk [0..<m])) = m * L"
      using True Suc.prems(2) by (intro length_concat_chunks) simp
    have le: "m = 0 \<or> base + m * L \<le> len"
    proof (cases m)
      case 0 then show ?thesis by simp
    next
      case (Suc k)
      then have "ok k" "k < Suc m" using True by auto
      then have "base + k * L + L \<le> len" using Suc.prems(3) Suc by simp
      then show ?thesis using Suc by (simp add: add.commute add.left_commute)
    qed
    have lB: "length ?B = len"
    proof (cases "m = 0")
      case True
      then show ?thesis using Suc.prems(4) by simp
    next
      case False
      with le have "base + m * L \<le> length buf" using Suc.prems(4) by simp
      then show ?thesis using lc Suc.prems(4) by simp
    qed
    have step: "body m (?B, ?W) =
        (if ok m then Some (take (base + m * L) ?B @ chunk m @ drop (base + m * L + L) ?B,
                            ?W @ wr m)
         else None)"
      by (rule Suc.prems(1)) (rule lessI, rule lB)
    show ?thesis
    proof (cases "ok m")
      case False
      then have n: "\<not> (\<forall>i<Suc m. ok i)" by blast
      from False have "for_loop body [0..<Suc m] (buf, w) = None"
        unfolding eq run option.case step by simp
      with n show ?thesis by simp
    next
      case okm: True
      then have all: "\<forall>i<Suc m. ok i" using True less_Suc_eq by auto
      have b: "base + m * L + L \<le> len" using okm Suc.prems(3) by simp
      then have b': "base + m * L \<le> length buf" "base \<le> length buf"
        using Suc.prems(4) by simp_all
      have t: "take (base + m * L) ?B = take base buf @ concat (map chunk [0..<m])"
        using b' lc by simp
      have d: "drop (base + m * L + L) ?B = drop (base + Suc m * L) buf"
        using b' lc by (simp add: add.commute add.left_commute)
      have "for_loop body [0..<Suc m] (buf, w) =
          Some (take (base + m * L) ?B @ chunk m @ drop (base + m * L + L) ?B, ?W @ wr m)"
        unfolding eq run option.case step using okm by simp
      also have "\<dots> = Some (take base buf @ concat (map chunk [0..<Suc m]) @
                          drop (base + Suc m * L) buf,
                        w @ concat (map wr [0..<Suc m]))"
        unfolding t d by simp
      finally show ?thesis using all by simp
    qed
  qed
qed

lemma length_gathered_slice:
  assumes "copy_in_bounds g ps B (length params) indices out_length b s"
  shows "length (gathered_slice g ps B params indices b s) = slice_size g"
proof -
  from assms have "nat (source_offset g ps B indices b s) + slice_size g \<le> length params"
    by (simp add: copy_in_bounds_def)
  then have "slice_size g \<le> length params - nat (source_offset g ps B indices b s)"
    by linarith
  then show ?thesis by (simp add: gathered_slice_def)
qed

lemma slice_loop_closed:
  assumes d: "derive ps is os B = Some (Derived g)"
  shows "for_loop (slice_step g params indices b)
           [0..<number_of_slices_to_copy_in_one_batch g] (buf, w) =
    (if \<forall>s<number_of_slices_to_copy_in_one_batch g.
          copy_in_bounds g ps B (length params) indices (length buf) b s
     then Some (take (b * (number_of_slices_to_copy_in_one_batch g * slice_size g)) buf @
                concat (map (gathered_slice g ps B params indices b)
                         [0..<number_of_slices_to_copy_in_one_batch g]) @
                drop (b * (number_of_slices_to_copy_in_one_batch g * slice_size g) +
                      number_of_slices_to_copy_in_one_batch g * slice_size g) buf,
                w @ concat (map (slice_writes g ps B params indices b)
                             [0..<number_of_slices_to_copy_in_one_batch g]))
     else None)"
proof (rule for_loop_chunks [where len = "length buf"])
  let ?n = "number_of_slices_to_copy_in_one_batch g"
  let ?base = "b * (?n * slice_size g)"
  have dst: "destination_offset g b s = ?base + s * slice_size g" for s
    by (simp add: destination_offset_def mult.assoc)
  show "slice_step g params indices b s (buf', w') =
       (if copy_in_bounds g ps B (length params) indices (length buf) b s
        then Some (take (?base + s * slice_size g) buf' @
                   gathered_slice g ps B params indices b s @
                   drop (?base + s * slice_size g + slice_size g) buf',
                   w' @ slice_writes g ps B params indices b s)
        else None)" if "length buf' = length buf" for s buf' w'
    unfolding slice_step_closed [OF d] gathered_slice_def slice_writes_def dst that ..
  show "length (gathered_slice g ps B params indices b s) = slice_size g"
    if "copy_in_bounds g ps B (length params) indices (length buf) b s" for s
    using that by (rule length_gathered_slice)
  show "?base + s * slice_size g + slice_size g \<le> length buf"
    if "copy_in_bounds g ps B (length params) indices (length buf) b s" for s
    using that by (simp add: copy_in_bounds_def dst)
qed simp

lemma copy_loops_closed:
  assumes d: "derive ps is os B = Some (Derived g)"
  shows "copy_loops g params indices (buf, w) =
    (if all_in_bounds g ps B (length params) indices (length buf)
     then Some (concat (map (\<lambda>b. concat (map (gathered_slice g ps B params indices b)
                                     [0..<number_of_slices_to_copy_in_one_batch g]))
                         [0..<batch_size g]) @
                drop (batch_size g * (number_of_slices_to_copy_in_one_batch g * slice_size g)) buf,
                w @ concat (map (\<lambda>b. concat (map (slice_writes g ps B params indices b)
                                     [0..<number_of_slices_to_copy_in_one_batch g]))
                             [0..<batch_size g]))
     else None)"
proof -
  let ?n = "number_of_slices_to_copy_in_one_batch g"
  let ?L = "?n * slice_size g"
  let ?ok = "\<lambda>b. \<forall>s<?n. copy_in_bounds g ps B (length params) indices (length buf) b s"
  have "for_loop (\<lambda>batch. for_loop (slice_step g params indices batch) [0..<?n])
          [0..<batch_size g] (buf, w) =
    (if \<forall>b<batch_size g. ?ok b
     then Some (take 0 buf @
                concat (map (\<lambda>b. concat (map (gathered_slice g ps B params indices b) [0..<?n]))
                         [0..<batch_size g]) @
                drop (0 + batch_size g * ?L) buf,
                w @ concat (map (\<lambda>b. concat (map (slice_writes g ps B params indices b) [0..<?n]))
                             [0..<batch_size g]))
     else None)"
  proof (rule for_loop_chunks [where len = "length buf"])
    show "for_loop (slice_step g params indices b) [0..<?n] (buf', w') =
       (if ?ok b
        then Some (take (0 + b * ?L) buf' @
                   concat (map (gathered_slice g ps B params indices b) [0..<?n]) @
                   drop (0 + b * ?L + ?L) buf',
                   w' @ concat (map (slice_writes g ps B params indices b) [0..<?n]))
        else None)" if "length buf' = length buf" for b buf' w'
      unfolding slice_loop_closed [OF d] that by simp
    show "length (concat (map (gathered_slice g ps B params indices b) [0..<?n])) = ?L"
      if "?ok b" for b
      using that
      by (intro length_concat_chunks length_gathered_slice [where out_length = "length buf"]) simp
    show "0 + b * ?L + ?L \<le> length buf" if ok: "?ok b" for b
    proof (cases ?n)
      case 0
      then show ?thesis by simp
    next
      case (Suc k)
      with ok have "copy_in_bounds g ps B (length params) indices (length buf) b k" by simp
      then have "destination_offset g b k + slice_size g \<le> length buf"
        by (simp add: copy_in_bounds_def)
      then show ?thesis using Suc by (simp add: destination_offset_def algebra_simps)
    qed
  qed simp
  then show ?thesis by (simp add: copy_loops_def all_in_bounds_iff)
qed

lemma gather_nd_closed:
  assumes d: "derive ps is os B = Some (Derived g)"
  shows "gather_nd params indices (buf, w) ps is os B =
    (if all_in_bounds g ps B (length params) indices (length buf)
     then Normal (concat (map (\<lambda>b. concat (map (gathered_slice g ps B params indices b)
                                     [0..<number_of_slices_to_copy_in_one_batch g]))
                         [0..<batch_size g]) @
                drop (batch_size g * (number_of_slices_to_copy_in_one_batch g * slice_size g)) buf,
                w @ concat (map (\<lambda>b. concat (map (slice_writes g ps B params indices b)
                                     [0..<number_of_slices_to_copy_in_one_batch g]))
                             [0..<batch_size g]))
     else Undefined)"
  by (simp add: gather_nd_def d copy_loops_closed [OF d])

lemma take_drop_chunk:
  assumes "\<And>i. i < m \<Longrightarrow> length (chunk i) = L" and "i < m"
  shows "take L (drop (i * L) (concat (map chunk [0..<m]) @ rest)) = chunk i"
  using assms
proof (induction m arbitrary: rest)
  case 0
  then show ?case by simp
next
  case (Suc m)
  have lc: "length (concat (map chunk [0..<m])) = m * L"
    using Suc.prems(1) by (intro length_concat_chunks) simp
  show ?case
  proof (cases "i < m")
    case True
    have "take L (drop (i * L) (concat (map chunk [0..<m]) @ (chunk m @ rest))) = chunk i"
      using Suc.prems(1) True by (intro Suc.IH) simp_all
    then show ?thesis by simp
  next
    case False
    with Suc.prems(2) have [simp]: "i = m" by simp
    show ?thesis using lc Suc.prems(1) [of m] by simp
  qed
qed

lemma take_drop_take:
  "k + l \<le> N \<Longrightarrow> take l (drop k (take N xs)) = take l (drop k xs)"
  by (simp add: drop_take min_def)

lemma map_add_upt': "map (\<lambda>e. d + e) [0..<n] = [d..<d + n]"
  by (induction n) simp_all

lemma map_fst_slice_writes:
  "map fst (slice_writes g ps B params indices b s) =
     [destination_offset g b s..<destination_offset g b s + slice_size g]"
  by (simp add: slice_writes_def comp_def map_add_upt')

section \<open>Inputs on which the call is defined\<close>

lemma flat_index_bound:
  assumes "b < m" "s < n"
  shows "(b * n + s) * L + L \<le> m * n * (L::nat)"
proof -
  have "b * n + s + 1 \<le> b * n + n" using assms by simp
  also have "\<dots> = (b + 1) * n" by simp
  also have "\<dots> \<le> m * n" using assms by (intro mult_le_mono1) simp
  finally have "(b * n + s + 1) * L \<le> m * n * L" by (rule mult_le_mono1)
  then show ?thesis by (simp add: algebra_simps)
qed

lemma resolved_index_range:
  assumes "- int a \<le> c" "c < int a"
  shows "0 \<le> resolved_index a c" "resolved_index a c < int a"
  using assms by (simp_all add: resolved_index_def)

lemma partial_offset_bound:
  fixes ps :: "nat list"
  assumes m: "B + m \<le> length ps"
    and r: "\<And>c. c < m \<Longrightarrow> 0 \<le> f c \<and> f c < int (ps ! (B + c))"
  shows "0 \<le> (\<Sum>c\<leftarrow>[0..<m]. f c * int (prod_list (drop (B + c + 1) ps))) \<and>
         (\<Sum>c\<leftarrow>[0..<m]. f c * int (prod_list (drop (B + c + 1) ps))) +
           int (prod_list (drop (B + m) ps)) \<le> int (prod_list (drop B ps))"
  using m r
proof (induction m)
  case 0
  then show ?case by simp
next
  case (Suc m)
  let ?T = "\<Sum>c\<leftarrow>[0..<m]. f c * int (prod_list (drop (B + c + 1) ps))"
  let ?S = "int (prod_list (drop (B + m + 1) ps))"
  have IH: "0 \<le> ?T" "?T + int (prod_list (drop (B + m) ps)) \<le> int (prod_list (drop B ps))"
    using Suc by simp_all
  have fm: "0 \<le> f m" "f m + 1 \<le> int (ps ! (B + m))"
    using Suc.prems(2) [of m] by simp_all
  have lt: "B + m < length ps" using Suc.prems(1) by simp
  have split: "int (prod_list (drop (B + m) ps)) = int (ps ! (B + m)) * ?S"
    using lt by (simp flip: Cons_nth_drop_Suc)
  have S0: "0 \<le> ?S" by simp
  have "(f m + 1) * ?S \<le> int (ps ! (B + m)) * ?S"
    using fm(2) S0 by (rule mult_right_mono)
  then have "?T + f m * ?S + ?S \<le> ?T + int (prod_list (drop (B + m) ps))"
    unfolding split by (simp add: algebra_simps)
  with IH(2) have up: "?T + f m * ?S + ?S \<le> int (prod_list (drop B ps))" by linarith
  have "0 \<le> f m * ?S" using fm(1) S0 by (rule mult_nonneg_nonneg)
  with IH(1) have lo: "0 \<le> ?T + f m * ?S" by linarith
  from lo up show ?case by simp
qed

text \<open>
  What \<^verbatim>\<open>size_t\<close> leaves of a stride is at most the stride.
\<close>

lemma indices_offsets_le:
  assumes d: "derive ps is os B = Some (Derived g)" and c: "c < coordinates_size g"
  shows "indices_offsets g ! c \<le> prod_list (drop (B + c + 1) ps)"
proof -
  from d have v: "valid_shapes ps is os B" and g: "g = geometry_of ps is B"
    by (simp_all add: derive_Derived_iff)
  let ?K = "last is"
  have cK: "c < ?K" using c by (simp add: g geometry_of_simps)
  have "indices_offsets g ! c =
      wrapped_product (drop (B + c + 1) (take (B + ?K) ps)) (prod_list (drop (B + ?K) ps))"
    using cK by (simp add: g geometry_of_simps shape_size_prod_list)
  also have "\<dots> \<le> prod_list (drop (B + c + 1) (take (B + ?K) ps)) * prod_list (drop (B + ?K) ps)"
    by (rule wrapped_product_le)
  also have "\<dots> = prod_list (drop (B + c + 1) ps)"
    using cK by (intro prod_list_drop_split) simp
  finally show ?thesis .
qed

lemma batch_offset_le:
  assumes d: "derive ps is os B = Some (Derived g)"
  shows "batch_offset g \<le> shape_size (drop B ps)"
proof -
  from d have g: "g = geometry_of ps is B"
    by (simp add: derive_Derived_iff)
  let ?K = "last is"
  have "batch_offset g =
      wrapped_product (drop B (take (B + ?K) ps)) (prod_list (drop (B + ?K) ps))"
    by (simp add: g geometry_of_simps shape_size_prod_list)
  also have "\<dots> \<le> prod_list (drop B (take (B + ?K) ps)) * prod_list (drop (B + ?K) ps)"
    by (rule wrapped_product_le)
  also have "\<dots> = prod_list (drop B ps)"
    by (intro prod_list_drop_split) simp
  finally show ?thesis by (simp add: shape_size_prod_list)
qed

lemma tuple_offset_bound:
  assumes d: "derive ps is os B = Some (Derived g)"
    and r: "\<And>c. c < coordinates_size g \<Longrightarrow>
       - int (ps ! (B + c)) \<le> t ! c \<and> t ! c < int (ps ! (B + c))"
  shows "0 \<le> tuple_offset g ps B t"
    and "tuple_offset g ps B t + int (slice_size g) \<le> int (shape_size (drop B ps))"
proof -
  from d have v: "valid_shapes ps is os B" and g: "g = geometry_of ps is B"
    by (simp_all add: derive_Derived_iff)
  let ?K = "last is"
  let ?r = "\<lambda>c. resolved_index (ps ! (B + c)) (t ! c)"
  from v have i2: "B + ?K \<le> length ps"
    by (simp add: valid_shapes_def invariant_2_def)
  have K: "coordinates_size g = ?K" by (simp add: g geometry_of_simps)
  have rr: "0 \<le> ?r c \<and> ?r c < int (ps ! (B + c))" if "c < ?K" for c
    using r [of c] that by (simp add: K resolved_index_range)
  have exact: "0 \<le> (\<Sum>c\<leftarrow>[0..<?K]. ?r c * int (prod_list (drop (B + c + 1) ps))) \<and>
      (\<Sum>c\<leftarrow>[0..<?K]. ?r c * int (prod_list (drop (B + c + 1) ps))) +
        int (prod_list (drop (B + ?K) ps)) \<le> int (prod_list (drop B ps))"
    using i2 rr by (rule partial_offset_bound)
  have "tuple_offset g ps B t = (\<Sum>c\<leftarrow>[0..<?K]. ?r c * int (indices_offsets g ! c))"
    by (simp only: tuple_offset_def K)
  also have "\<dots> \<le> (\<Sum>c\<leftarrow>[0..<?K]. ?r c * int (prod_list (drop (B + c + 1) ps)))"
  proof (rule sum_list_mono)
    fix c assume "c \<in> set [0..<?K]"
    then have c: "c < ?K" by simp
    then have "int (indices_offsets g ! c) \<le> int (prod_list (drop (B + c + 1) ps))"
      using indices_offsets_le [OF d, of c] by (simp add: K)
    then show "?r c * int (indices_offsets g ! c) \<le>
        ?r c * int (prod_list (drop (B + c + 1) ps))"
      using rr [OF c] by (intro mult_left_mono) simp_all
  qed
  finally have le: "tuple_offset g ps B t \<le>
      (\<Sum>c\<leftarrow>[0..<?K]. ?r c * int (prod_list (drop (B + c + 1) ps)))" .
  have "0 \<le> (\<Sum>c\<leftarrow>[0..<?K]. ?r c * int (indices_offsets g ! c))"
  proof (rule sum_list_nonneg)
    fix x assume "x \<in> set (map (\<lambda>c. ?r c * int (indices_offsets g ! c)) [0..<?K])"
    then obtain c where "c < ?K" "x = ?r c * int (indices_offsets g ! c)" by auto
    then show "0 \<le> x" using rr [of c] by simp
  qed
  then show "0 \<le> tuple_offset g ps B t"
    by (simp only: tuple_offset_def K)
  from le exact show "tuple_offset g ps B t + int (slice_size g) \<le> int (shape_size (drop B ps))"
    by (simp add: g geometry_of_simps shape_size_prod_list)
qed

lemma in_range_all_in_bounds:
  assumes d: "derive ps is os B = Some (Derived g)"
    and lp: "batch_size g * shape_size (drop B ps) \<le> params_length"
    and li: "batch_size g * number_of_slices_to_copy_in_one_batch g * coordinates_size g
               \<le> length indices"
    and lo: "batch_size g * number_of_slices_to_copy_in_one_batch g * slice_size g \<le> out_length"
    and cr: "coordinates_in_range g ps B indices"
  shows "all_in_bounds g ps B params_length indices out_length"
  unfolding all_in_bounds_iff
proof (intro allI impI)
  let ?n = "number_of_slices_to_copy_in_one_batch g"
  let ?K = "coordinates_size g"
  let ?P = "shape_size (drop B ps)"
  fix b s assume b: "b < batch_size g" and s: "s < ?n"
  have tup: "(b * ?n + s) * ?K + ?K \<le> length indices"
    using flat_index_bound [OF b s, of ?K] li by linarith
  have dst: "destination_offset g b s + slice_size g \<le> out_length"
    using flat_index_bound [OF b s, of "slice_size g"] lo
    by (simp add: destination_offset_def algebra_simps)
  have comp: "- int (ps ! (B + c)) \<le> coordinate_tuple g indices b s ! c \<and>
      coordinate_tuple g indices b s ! c < int (ps ! (B + c))" if c: "c < ?K" for c
  proof -
    have "(b * ?n + s) * ?K + c < length indices" using tup c by linarith
    moreover have "((b * ?n + s) * ?K + c) mod ?K = c" using c by simp
    ultimately show ?thesis
      using cr unfolding coordinates_in_range_iff coordinate_tuple_nth [OF c tup]
      by metis
  qed
  have t0: "0 \<le> tuple_offset g ps B (coordinate_tuple g indices b s)"
    and t1: "tuple_offset g ps B (coordinate_tuple g indices b s) + int (slice_size g)
        \<le> int ?P"
    using tuple_offset_bound [OF d comp] by simp_all
  have s0: "0 \<le> source_offset g ps B indices b s"
    using t0 by (simp add: source_offset_def)
  have "(b + 1) * ?P \<le> batch_size g * ?P"
    using b by (intro mult_le_mono1) simp
  then have "b * ?P + ?P \<le> params_length"
    using lp by simp
  moreover have "b * batch_offset g \<le> b * ?P"
    using batch_offset_le [OF d] by (rule mult_le_mono2)
  ultimately have "b * batch_offset g + ?P \<le> params_length"
    by linarith
  then have "int (b * batch_offset g + ?P) \<le> int params_length"
    by (simp only: of_nat_le_iff)
  then have "int (b * batch_offset g) + int ?P \<le> int params_length"
    by (simp only: of_nat_add)
  then have "source_offset g ps B indices b s + int (slice_size g) \<le> int params_length"
    using t1 by (simp add: source_offset_def)
  then have s1: "nat (source_offset g ps B indices b s) + slice_size g \<le> params_length"
    using s0 by linarith
  show "copy_in_bounds g ps B params_length indices out_length b s"
    unfolding copy_in_bounds_def using tup s0 s1 dst by simp
qed

lemma shape_size_take_drop:
  "shape_size (take B ps) * shape_size (drop B ps) = shape_size ps"
  by (simp add: shape_size_prod_list flip: prod_list.append)

lemma shape_size_indices:
  assumes "is \<noteq> []" "B \<le> length is - 1"
  shows "shape_size (drop B is) = shape_size (drop B (butlast is)) * last is"
proof -
  have "drop B (butlast is @ [last is]) = drop B (butlast is) @ [last is]"
    using assms by (simp del: append_butlast_last_id)
  then have "drop B is = drop B (butlast is) @ [last is]"
    using assms(1) by simp
  then show ?thesis by (simp add: shape_size_prod_list)
qed

lemma gather_nd_defined:
  assumes d: "derive ps is os B = Some (Derived g)"
    and lp: "length params = shape_size ps"
    and li: "length indices = shape_size is"
    and lo: "batch_size g * number_of_slices_to_copy_in_one_batch g * slice_size g \<le> length out"
    and cr: "coordinates_in_range g ps B indices"
  shows "all_in_bounds g ps B (length params) indices (length out)"
proof -
  from d have v: "valid_shapes ps is os B" and g: "g = geometry_of ps is B"
    by (simp_all add: derive_Derived_iff)
  from v have wf: "B < length is" and i1: "take B ps = take B is"
    by (simp_all add: valid_shapes_def well_formed_def invariant_1_def)
  have "shape_size is = shape_size (take B is) * shape_size (drop B is)"
    by (simp add: shape_size_take_drop)
  also have "shape_size (drop B is) = shape_size (drop B (butlast is)) * last is"
    using wf by (intro shape_size_indices) auto
  finally have "shape_size is =
      batch_size g * number_of_slices_to_copy_in_one_batch g * coordinates_size g"
    by (simp add: g geometry_of_simps i1)
  moreover have "shape_size ps = batch_size g * shape_size (drop B ps)"
    by (simp add: g geometry_of_simps shape_size_take_drop)
  ultimately show ?thesis
    using lp li lo by (intro in_range_all_in_bounds [OF d _ _ _ cr]) simp_all
qed

lemma gather_nd_returns:
  assumes "derive ps is os B = Some (Derived g)"
    and "length params = shape_size ps"
    and "length indices = shape_size is"
    and "batch_size g * number_of_slices_to_copy_in_one_batch g * slice_size g \<le> length out"
    and "coordinates_in_range g ps B indices"
  shows "\<exists>out' writes. gather_nd params indices (out, w) ps is os B = Normal (out', writes)"
  unfolding gather_nd_closed [OF assms(1)]
  using gather_nd_defined [OF assms] by simp

section \<open>A running example\<close>

text \<open>
  Two batches of a \<open>3 \<times> 4\<close> matrix, one tuple of width 2 per batch: the tuple \<open>[1, -1]\<close>
  selects element \<open>[0][1][3]\<close>, the tuple \<open>[0, 2]\<close> element \<open>[1][0][2]\<close>.
\<close>

lemma example_valid: "valid_shapes [2, 3, 4] [2, 1, 2] [2, 1] 1"
  by (simp add: valid_shapes_def well_formed_def invariant_1_def invariant_2_def
      invariant_3_def shape_size_def)

lemma example_derive:
  "derive [2, 3, 4] [2, 1, 2] [2, 1] 1 = Some (Derived (geometry_of [2, 3, 4] [2, 1, 2] 1))"
  using example_valid by (rule derive_valid)

lemma example_geometry:
  "batch_size (geometry_of [2, 3, 4] [2, 1, 2] 1) = 2"
  "number_of_slices_to_copy_in_one_batch (geometry_of [2, 3, 4] [2, 1, 2] 1) = 1"
  "slice_size (geometry_of [2, 3, 4] [2, 1, 2] 1) = 1"
  "coordinates_size (geometry_of [2, 3, 4] [2, 1, 2] 1) = 2"
  by code_simp+

lemma example_sizes:
  "length [0..<24] = shape_size [2, 3, 4]"
  "length [1, - 1, 0, 2::int] = shape_size [2, 1, 2]"
  "length [99, 99::nat] = shape_size [2, 1]"
  by code_simp+

lemma example_in_range:
  "coordinates_in_range (geometry_of [2, 3, 4] [2, 1, 2] 1) [2, 3, 4] 1 [1, - 1, 0, 2]"
  by code_simp

lemma example_run:
  "gather_nd [0..<24] [1, - 1, 0, 2] ([99, 99], []) [2, 3, 4] [2, 1, 2] [2, 1] 1 =
     Normal ([7, 14], [(0, 7), (1, 14)])"
  by code_simp

section \<open>What is copied, where, and in which order\<close>

lemma writes_of_run:
  assumes "valid_shapes ps is os B"
    and "derive ps is os B = Some (Derived g)"
    and "gather_nd params indices (out, []) ps is os B = Normal (out', writes)"
  shows "writes =
           concat (map (\<lambda>b. concat (map (\<lambda>s.
               map (\<lambda>e. (destination_offset g b s + e,
                          params ! (nat (source_offset g ps B indices b s) + e)))
                 [0..<slice_size g])
             [0..<number_of_slices_to_copy_in_one_batch g])) [0..<batch_size g]) \<and>
         (\<forall>b<batch_size g. \<forall>s<number_of_slices_to_copy_in_one_batch g.
            take (slice_size g) (drop (destination_offset g b s) out') =
            take (slice_size g) (drop (nat (source_offset g ps B indices b s)) params))"
proof -
  let ?n = "number_of_slices_to_copy_in_one_batch g"
  let ?sz = "slice_size g"
  let ?chunk = "\<lambda>b. concat (map (gathered_slice g ps B params indices b) [0..<?n])"
  from assms(3) have inb: "all_in_bounds g ps B (length params) indices (length out)"
    and out': "out' = concat (map ?chunk [0..<batch_size g]) @ drop (batch_size g * (?n * ?sz)) out"
    and w: "writes = concat (map (\<lambda>b. concat (map (slice_writes g ps B params indices b)
                                     [0..<?n])) [0..<batch_size g])"
    unfolding gather_nd_closed [OF assms(2)] by (simp_all split: if_splits)
  have len: "length (gathered_slice g ps B params indices b s) = ?sz"
    if "b < batch_size g" "s < ?n" for b s
    using inb that by (intro length_gathered_slice [where out_length = "length out"])
      (simp add: all_in_bounds_iff)
  have lenc: "length (?chunk b) = ?n * ?sz" if "b < batch_size g" for b
    using that len by (intro length_concat_chunks) simp
  have "take ?sz (drop (destination_offset g b s) out') =
        take ?sz (drop (nat (source_offset g ps B indices b s)) params)"
    if b: "b < batch_size g" and s: "s < ?n" for b s
  proof -
    have 1: "take (?n * ?sz) (drop (b * (?n * ?sz)) out') = ?chunk b"
      unfolding out' using lenc b by (intro take_drop_chunk) simp_all
    have 2: "take ?sz (drop (s * ?sz) (?chunk b @ [])) = gathered_slice g ps B params indices b s"
      using len b s by (intro take_drop_chunk) simp_all
    have "s * ?sz + ?sz \<le> ?n * ?sz"
      using s by (metis Suc_leI mult_Suc mult_le_mono1 add.commute)
    then have "take ?sz (drop (s * ?sz) (take (?n * ?sz) (drop (b * (?n * ?sz)) out'))) =
        take ?sz (drop (s * ?sz) (drop (b * (?n * ?sz)) out'))"
      by (rule take_drop_take)
    then have "take ?sz (drop (destination_offset g b s) out') =
        gathered_slice g ps B params indices b s"
      using 2 unfolding 1 by (simp add: destination_offset_def mult.assoc add.commute)
    then show ?thesis by (simp add: gathered_slice_def)
  qed
  moreover have "slice_writes g ps B params indices b =
      (\<lambda>s. map (\<lambda>e. (destination_offset g b s + e,
                          params ! (nat (source_offset g ps B indices b s) + e)))
                 [0..<slice_size g])" for b
    by (rule ext) (simp add: slice_writes_def)
  ultimately show ?thesis unfolding w by simp
qed

text \<open>
  Claim C1. For valid shapes, with \<open>g\<close> the constants derived by the code:
  \<^item> when \<^verbatim>\<open>params\<close> and \<^verbatim>\<open>indices\<close> have the sizes of their shapes, the output buffer
    has room for \<open>batch_size * number_of_slices * slice_size\<close> elements and every
    component of the indices addresses its axis, \<^verbatim>\<open>gather_nd\<close> returns;
  \<^item> whenever \<^verbatim>\<open>gather_nd\<close> returns, the element writes it has done are, for every batch
    \<open>b\<close> in order, for every tuple \<open>s\<close> of the batch in order, for every element \<open>e\<close> of
    the slice in order, the write of \<^verbatim>\<open>params[source_offset + e]\<close> to position
    \<open>b * number_of_slices * slice_size + s * slice_size + e\<close>, where the source offset is
    \<open>b * batch_offset\<close> plus the dot product of the resolved tuple with the offset
    table; and in the returned buffer the slice at that destination equals the slice of
    \<^verbatim>\<open>params\<close> at that source offset.
\<close>

theorem gather_nd_copies_slices:
  assumes "valid_shapes ps is os B"
    and "derive ps is os B = Some (Derived g)"
  shows "(length params = shape_size ps \<and> length indices = shape_size is \<and>
          batch_size g * number_of_slices_to_copy_in_one_batch g * slice_size g \<le> length out \<and>
          coordinates_in_range g ps B indices \<longrightarrow>
            (\<exists>out' writes.
               gather_nd params indices (out, []) ps is os B = Normal (out', writes))) \<and>
         (\<forall>out' writes.
            gather_nd params indices (out, []) ps is os B = Normal (out', writes) \<longrightarrow>
            writes =
              concat (map (\<lambda>b. concat (map (\<lambda>s.
                  map (\<lambda>e. (destination_offset g b s + e,
                             params ! (nat (source_offset g ps B indices b s) + e)))
                    [0..<slice_size g])
                [0..<number_of_slices_to_copy_in_one_batch g])) [0..<batch_size g]) \<and>
            (\<forall>b<batch_size g. \<forall>s<number_of_slices_to_copy_in_one_batch g.
               take (slice_size g) (drop (destination_offset g b s) out') =
               take (slice_size g) (drop (nat (source_offset g ps B indices b s)) params)))"
proof (rule conjI)
  show "length params = shape_size ps \<and> length indices = shape_size is \<and>
      batch_size g * number_of_slices_to_copy_in_one_batch g * slice_size g \<le> length out \<and>
      coordinates_in_range g ps B indices \<longrightarrow>
      (\<exists>out' writes. gather_nd params indices (out, []) ps is os B = Normal (out', writes))"
    using gather_nd_returns [OF assms(2)] by blast
  show "\<forall>out' writes.
      gather_nd params indices (out, []) ps is os B = Normal (out', writes) \<longrightarrow>
      writes =
        concat (map (\<lambda>b. concat (map (\<lambda>s.
            map (\<lambda>e. (destination_offset g b s + e,
                       params ! (nat (source_offset g ps B indices b s) + e)))
              [0..<slice_size g])
          [0..<number_of_slices_to_copy_in_one_batch g])) [0..<batch_size g]) \<and>
      (\<forall>b<batch_size g. \<forall>s<number_of_slices_to_copy_in_one_batch g.
         take (slice_size g) (drop (destination_offset g b s) out') =
         take (slice_size g) (drop (nat (source_offset g ps B indices b s)) params))"
    using writes_of_run [OF assms] by blast
qed

theorem gather_nd_copies_slices_witness:
  "(\<exists>out' writes.
      gather_nd [0..<24] [1, - 1, 0, 2] ([99, 99], []) [2, 3, 4] [2, 1, 2] [2, 1] 1 =
        Normal (out', writes)) \<and>
   gather_nd [0..<24] [1, - 1, 0, 2] ([99, 99], []) [2, 3, 4] [2, 1, 2] [2, 1] 1
     = Normal ([7, 14], [(0, 7), (1, 14)]) \<and>
   [(0, 7), (1, 14)] =
     concat (map (\<lambda>b. concat (map (\<lambda>s.
         map (\<lambda>e. (destination_offset (geometry_of [2, 3, 4] [2, 1, 2] 1) b s + e,
                    [0..<24] ! (nat (source_offset (geometry_of [2, 3, 4] [2, 1, 2] 1)
                                      [2, 3, 4] 1 [1, - 1, 0, 2] b s) + e)))
           [0..<slice_size (geometry_of [2, 3, 4] [2, 1, 2] 1)])
       [0..<number_of_slices_to_copy_in_one_batch (geometry_of [2, 3, 4] [2, 1, 2] 1)]))
       [0..<batch_size (geometry_of [2, 3, 4] [2, 1, 2] 1)]) \<and>
   source_offset (geometry_of [2, 3, 4] [2, 1, 2] 1) [2, 3, 4] 1 [1, - 1, 0, 2] 1 0 = 14 \<and>
   take (slice_size (geometry_of [2, 3, 4] [2, 1, 2] 1))
     (drop (destination_offset (geometry_of [2, 3, 4] [2, 1, 2] 1) 1 0) [7, 14]) =
   take (slice_size (geometry_of [2, 3, 4] [2, 1, 2] 1))
     (drop (nat (source_offset (geometry_of [2, 3, 4] [2, 1, 2] 1)
                   [2, 3, 4] 1 [1, - 1, 0, 2] 1 0)) [0..<24])"
proof -
  define g where "g = geometry_of [2, 3, 4] [2, 1, 2] 1"
  note d = example_derive [folded g_def]
  have lo: "batch_size g * number_of_slices_to_copy_in_one_batch g * slice_size g
      \<le> length [99, 99::nat]"
    unfolding g_def example_geometry by simp
  have b: "1 < batch_size g" "0 < number_of_slices_to_copy_in_one_batch g"
    unfolding g_def example_geometry by simp_all
  have s: "source_offset g [2, 3, 4] 1 [1, - 1, 0, 2] 1 0 = 14"
    unfolding g_def by code_simp
  note th = gather_nd_copies_slices
    [OF example_valid d, of "[0..<24]" "[1, - 1, 0, 2]" "[99, 99]"]
  from th example_sizes(1,2) lo example_in_range [folded g_def]
  have ex: "\<exists>out' writes.
      gather_nd [0..<24] [1, - 1, 0, 2] ([99, 99], []) [2, 3, 4] [2, 1, 2] [2, 1] 1 =
        Normal (out', writes)"
    by blast
  from th example_run have "[(0, 7), (1, 14)] =
      concat (map (\<lambda>b. concat (map (\<lambda>s.
          map (\<lambda>e. (destination_offset g b s + e,
                     [0..<24] ! (nat (source_offset g [2, 3, 4] 1 [1, - 1, 0, 2] b s) + e)))
            [0..<slice_size g])
        [0..<number_of_slices_to_copy_in_one_batch g])) [0..<batch_size g])"
    and "\<forall>b<batch_size g. \<forall>s<number_of_slices_to_copy_in_one_batch g.
      take (slice_size g) (drop (destination_offset g b s) [7, 14]) =
      take (slice_size g) (drop (nat (source_offset g [2, 3, 4] 1 [1, - 1, 0, 2] b s)) [0..<24])"
    by blast+
  with b ex example_run s show ?thesis unfolding g_def by blast
qed

section \<open>Coverage of the output and independence of its contents\<close>

lemma map_fst_chunks_from:
  assumes "\<And>i. i < m \<Longrightarrow> map fst (wr i) = [base + i * L..<base + i * L + L]"
  shows "map fst (concat (map wr [0..<m])) = [base..<base + m * L]"
  using assms
proof (induction m)
  case 0
  then show ?case by simp
next
  case (Suc m)
  then have "map fst (concat (map wr [0..<m])) = [base..<base + m * L]" by simp
  moreover have "map fst (wr m) = [base + m * L..<base + m * L + L]" using Suc.prems by simp
  moreover have "[base..<base + m * L] @ [base + m * L..<base + m * L + L] = [base..<base + Suc m * L]"
  proof -
    have "[base..<base + m * L + L] = [base..<base + m * L] @ [base + m * L..<base + m * L + L]"
      by (rule upt_add_eq_append) simp
    moreover have "base + Suc m * L = base + m * L + L" by simp
    ultimately show ?thesis by (simp only:)
  qed
  ultimately show ?case by (simp add: map_concat)
qed

lemma map_fst_writes:
  "map fst (concat (map (\<lambda>b. concat (map (slice_writes g ps B params indices b) [0..<n]))
                      [0..<m])) = [0..<m * (n * slice_size g)]"
  if "n = number_of_slices_to_copy_in_one_batch g"
proof -
  have inner: "map fst (concat (map (slice_writes g ps B params indices b) [0..<n])) =
      [0 + b * (n * slice_size g)..<0 + b * (n * slice_size g) + n * slice_size g]" for b
    using map_fst_chunks_from [where wr = "slice_writes g ps B params indices b"
        and base = "b * (n * slice_size g)" and L = "slice_size g" and m = n]
    by (simp add: map_fst_slice_writes destination_offset_def that mult.assoc)
  show ?thesis
    using map_fst_chunks_from [where base = 0 and L = "n * slice_size g" and m = m
        and wr = "\<lambda>b. concat (map (slice_writes g ps B params indices b) [0..<n])"]
    by (simp add: inner)
qed

lemma shape_size_gathered_shape:
  "shape_size (gathered_shape ps is B) =
     batch_size (geometry_of ps is B) *
     number_of_slices_to_copy_in_one_batch (geometry_of ps is B) *
     slice_size (geometry_of ps is B)"
  by (simp add: gathered_shape_def geometry_of_simps shape_size_prod_list)

lemma coverage_of_run:
  assumes "valid_shapes ps is os B"
    and "derive ps is os B = Some (Derived g)"
    and "gather_nd params indices (out, []) ps is os B = Normal (out', writes)"
  shows "map fst writes =
           [0..<batch_size g * number_of_slices_to_copy_in_one_batch g * slice_size g] \<and>
         distinct (map fst writes) \<and>
         (\<forall>out2. length out2 = length out \<longrightarrow>
            (\<exists>out2'. gather_nd params indices (out2, []) ps is os B = Normal (out2', writes) \<and>
               take (batch_size g * number_of_slices_to_copy_in_one_batch g * slice_size g) out2' =
               take (batch_size g * number_of_slices_to_copy_in_one_batch g * slice_size g) out')) \<and>
         (os = gathered_shape ps is B \<longrightarrow>
            shape_size os =
              batch_size g * number_of_slices_to_copy_in_one_batch g * slice_size g)"
proof -
  let ?n = "number_of_slices_to_copy_in_one_batch g"
  let ?N = "batch_size g * ?n * slice_size g"
  let ?chunks = "concat (map (\<lambda>b. concat (map (gathered_slice g ps B params indices b) [0..<?n]))
                          [0..<batch_size g])"
  let ?writes = "concat (map (\<lambda>b. concat (map (slice_writes g ps B params indices b) [0..<?n]))
                          [0..<batch_size g])"
  from assms(2) have g: "g = geometry_of ps is B" by (simp add: derive_Derived_iff)
  from assms(3) have inb: "all_in_bounds g ps B (length params) indices (length out)"
    and out': "out' = ?chunks @ drop (batch_size g * (?n * slice_size g)) out"
    and w: "writes = ?writes"
    unfolding gather_nd_closed [OF assms(2)] by (simp_all split: if_splits)
  have fst: "map fst writes = [0..<?N]"
    unfolding w by (simp add: map_fst_writes mult.assoc)
  then have dist: "distinct (map fst writes)" by simp
  have lc: "length ?chunks = ?N"
  proof -
    have "length (gathered_slice g ps B params indices b s) = slice_size g"
      if "b < batch_size g" "s < ?n" for b s
      using inb that by (intro length_gathered_slice [where out_length = "length out"])
        (simp add: all_in_bounds_iff)
    then have "length (concat (map (gathered_slice g ps B params indices b) [0..<?n])) =
        ?n * slice_size g" if "b < batch_size g" for b
      using that by (intro length_concat_chunks) simp
    then have "length ?chunks = batch_size g * (?n * slice_size g)"
      by (rule length_concat_chunks)
    then show ?thesis by (simp add: mult.assoc)
  qed
  have indep: "\<exists>out2'. gather_nd params indices (out2, []) ps is os B = Normal (out2', writes) \<and>
      take ?N out2' = take ?N out'" if "length out2 = length out" for out2
  proof -
    have "gather_nd params indices (out2, []) ps is os B =
        Normal (?chunks @ drop (batch_size g * (?n * slice_size g)) out2, writes)"
      unfolding gather_nd_closed [OF assms(2)] that w using inb by simp
    moreover have "take ?N (?chunks @ drop (batch_size g * (?n * slice_size g)) out2) =
        take ?N out'"
      unfolding out' using lc by simp
    ultimately show ?thesis by blast
  qed
  have "shape_size os = ?N" if "os = gathered_shape ps is B"
    unfolding that g by (rule shape_size_gathered_shape)
  with fst dist indep show ?thesis by blast
qed

text \<open>
  Claim C2, as amended. For valid shapes, with \<open>g\<close> the constants derived by the code:
  \<^item> when \<^verbatim>\<open>params\<close> and \<^verbatim>\<open>indices\<close> have the sizes of their shapes, the output buffer
    has room for \<open>batch_size * number_of_slices * slice_size\<close> elements and every
    component of the indices addresses its axis, \<^verbatim>\<open>gather_nd\<close> returns;
  \<^item> whenever \<^verbatim>\<open>gather_nd\<close> returns, the positions written, in the order of the writes,
    are \<open>0, 1, \<dots>\<close> up to \<open>batch_size * number_of_slices * slice_size\<close>, each exactly
    once; and for any other initial contents of the output buffer (of the same length)
    the call returns too, with the same list of writes and the same contents of the
    written region;
  \<^item> this region has \<^verbatim>\<open>shape_size(out_shape)\<close> elements when \<^verbatim>\<open>out_shape\<close> is the shape of
    the gathered tensor. The three invariants alone do not give that: they constrain
    only the first entry of \<^verbatim>\<open>out_shape\<close>, and none when \<^verbatim>\<open>batch_dims\<close> is 0.
\<close>

theorem gather_nd_writes_once:
  assumes "valid_shapes ps is os B"
    and "derive ps is os B = Some (Derived g)"
  shows "(length params = shape_size ps \<and> length indices = shape_size is \<and>
          batch_size g * number_of_slices_to_copy_in_one_batch g * slice_size g \<le> length out \<and>
          coordinates_in_range g ps B indices \<longrightarrow>
            (\<exists>out' writes.
               gather_nd params indices (out, []) ps is os B = Normal (out', writes))) \<and>
         (\<forall>out' writes.
            gather_nd params indices (out, []) ps is os B = Normal (out', writes) \<longrightarrow>
            map fst writes =
              [0..<batch_size g * number_of_slices_to_copy_in_one_batch g * slice_size g] \<and>
            distinct (map fst writes) \<and>
            (\<forall>out2. length out2 = length out \<longrightarrow>
               (\<exists>out2'.
                  gather_nd params indices (out2, []) ps is os B = Normal (out2', writes) \<and>
                  take (batch_size g * number_of_slices_to_copy_in_one_batch g * slice_size g)
                    out2' =
                  take (batch_size g * number_of_slices_to_copy_in_one_batch g * slice_size g)
                    out'))) \<and>
         (os = gathered_shape ps is B \<longrightarrow>
            shape_size os =
              batch_size g * number_of_slices_to_copy_in_one_batch g * slice_size g)"
proof (intro conjI)
  show "length params = shape_size ps \<and> length indices = shape_size is \<and>
      batch_size g * number_of_slices_to_copy_in_one_batch g * slice_size g \<le> length out \<and>
      coordinates_in_range g ps B indices \<longrightarrow>
      (\<exists>out' writes. gather_nd params indices (out, []) ps is os B = Normal (out', writes))"
    using gather_nd_returns [OF assms(2)] by blast
  show "\<forall>out' writes.
      gather_nd params indices (out, []) ps is os B = Normal (out', writes) \<longrightarrow>
      map fst writes =
        [0..<batch_size g * number_of_slices_to_copy_in_one_batch g * slice_size g] \<and>
      distinct (map fst writes) \<and>
      (\<forall>out2. length out2 = length out \<longrightarrow>
         (\<exists>out2'.
            gather_nd params indices (out2, []) ps is os B = Normal (out2', writes) \<and>
            take (batch_size g * number_of_slices_to_copy_in_one_batch g * slice_size g)
              out2' =
            take (batch_size g * number_of_slices_to_copy_in_one_batch g * slice_size g)
              out'))"
    using coverage_of_run [OF assms] by blast
  from assms(2) have "g = geometry_of ps is B"
    by (simp add: derive_Derived_iff)
  then show "os = gathered_shape ps is B \<longrightarrow>
      shape_size os =
        batch_size g * number_of_slices_to_copy_in_one_batch g * slice_size g"
    by (simp add: shape_size_gathered_shape)
qed

theorem gather_nd_writes_once_witness:
  "(\<exists>out' writes.
      gather_nd [0..<24] [1, - 1, 0, 2] ([99, 99], []) [2, 3, 4] [2, 1, 2] [2, 1] 1 =
        Normal (out', writes)) \<and>
   map fst [(0, 7), (1, 14::nat)] =
     [0..<batch_size (geometry_of [2, 3, 4] [2, 1, 2] 1) *
          number_of_slices_to_copy_in_one_batch (geometry_of [2, 3, 4] [2, 1, 2] 1) *
          slice_size (geometry_of [2, 3, 4] [2, 1, 2] 1)] \<and>
   (\<exists>out2'. gather_nd [0..<24] [1, - 1, 0, 2] ([5, 6], []) [2, 3, 4] [2, 1, 2] [2, 1] 1 =
       Normal (out2', [(0, 7), (1, 14)])) \<and>
   shape_size [2, 1] = 2"
proof -
  define g where "g = geometry_of [2, 3, 4] [2, 1, 2] 1"
  note d = example_derive [folded g_def]
  have n: "batch_size g * number_of_slices_to_copy_in_one_batch g * slice_size g = 2"
    unfolding g_def example_geometry by simp
  have lo: "batch_size g * number_of_slices_to_copy_in_one_batch g * slice_size g
      \<le> length [99, 99::nat]"
    unfolding n by simp
  have sh: "[2, 1] = gathered_shape [2, 3, 4] [2, 1, 2] 1"
    by code_simp
  have l: "length [5, 6::nat] = length [99, 99::nat]"
    by simp
  note th = gather_nd_writes_once
    [OF example_valid d, of "[0..<24]" "[1, - 1, 0, 2]" "[99, 99]"]
  from th example_sizes(1,2) lo example_in_range [folded g_def]
  have ex: "\<exists>out' writes.
      gather_nd [0..<24] [1, - 1, 0, 2] ([99, 99], []) [2, 3, 4] [2, 1, 2] [2, 1] 1 =
        Normal (out', writes)"
    by blast
  from th example_run
  have a: "map fst [(0, 7), (1, 14::nat)] =
      [0..<batch_size g * number_of_slices_to_copy_in_one_batch g * slice_size g]"
    and b: "\<forall>out2. length out2 = length [99, 99::nat] \<longrightarrow>
      (\<exists>out2'. gather_nd [0..<24] [1, - 1, 0, 2] (out2, []) [2, 3, 4] [2, 1, 2] [2, 1] 1 =
          Normal (out2', [(0, 7), (1, 14)]) \<and>
        take (batch_size g * number_of_slices_to_copy_in_one_batch g * slice_size g) out2' =
        take (batch_size g * number_of_slices_to_copy_in_one_batch g * slice_size g) [7, 14])"
    by blast+
  from b l have c: "\<exists>out2'.
      gather_nd [0..<24] [1, - 1, 0, 2] ([5, 6], []) [2, 3, 4] [2, 1, 2] [2, 1] 1 =
        Normal (out2', [(0, 7), (1, 14)])"
    by blast
  from th sh have "shape_size [2, 1] =
      batch_size g * number_of_slices_to_copy_in_one_batch g * slice_size g"
    by blast
  then have e: "shape_size [2, 1] = 2"
    unfolding n .
  from ex a c e show ?thesis
    unfolding g_def by blast
qed

text \<open>
  The size law of claim C2 as stated fails: these shapes satisfy the three invariants,
  the call returns after one write, and \<^verbatim>\<open>shape_size(out_shape)\<close> is 5.
\<close>

theorem out_shape_size_counterexample:
  "valid_shapes [2] [1, 1] [5] 0 \<and>
   gather_nd [10, 20] [1] ([0, 0, 0, 0, 0], []) [2] [1, 1] [5] 0 =
     Normal ([20, 0, 0, 0, 0::nat], [(0, 20)]) \<and>
   derive [2] [1, 1] [5] 0 = Some (Derived (geometry_of [2] [1, 1] 0)) \<and>
   batch_size (geometry_of [2] [1, 1] 0) *
     number_of_slices_to_copy_in_one_batch (geometry_of [2] [1, 1] 0) *
     slice_size (geometry_of [2] [1, 1] 0) = 1 \<and>
   shape_size [5] = 5"
proof -
  have v: "valid_shapes [2] [1, 1] [5] 0"
    by (simp add: valid_shapes_def well_formed_def invariant_1_def invariant_2_def
        invariant_3_def)
  have r: "gather_nd [10, 20] [1] ([0, 0, 0, 0, 0], []) [2] [1, 1] [5] 0 =
     Normal ([20, 0, 0, 0, 0::nat], [(0, 20)])"
    by code_simp
  show ?thesis
    using v r derive_valid [OF v] by (simp add: geometry_of_simps shape_size_def)
qed

section \<open>Negative indices\<close>

lemma coordinate_step_negative:
  assumes d: "derive ps is os B = Some (Derived g)" and c: "c < coordinates_size g"
    and j: "0 \<le> indices ! j" "indices ! j < int (ps ! (B + j mod coordinates_size g))"
  shows "coordinate_step g (indices[j := indices ! j - int (ps ! (B + j mod coordinates_size g))])
           (q * coordinates_size g) c acc =
         coordinate_step g indices (q * coordinates_size g) c acc"
proof (cases "q * coordinates_size g + c = j")
  case True
  then have m: "j mod coordinates_size g = c" using c by auto
  show ?thesis
    unfolding coordinate_step_closed [OF d c] using j True
    by (simp add: m resolved_index_def)
next
  case False
  then show ?thesis
    unfolding coordinate_step_closed [OF d c] by simp
qed

lemma slice_step_negative:
  assumes d: "derive ps is os B = Some (Derived g)"
    and j: "0 \<le> indices ! j" "indices ! j < int (ps ! (B + j mod coordinates_size g))"
  shows "slice_step g params (indices[j := indices ! j - int (ps ! (B + j mod coordinates_size g))])
           b s st =
         slice_step g params indices b s st"
proof -
  let ?K = "coordinates_size g"
  let ?n = "number_of_slices_to_copy_in_one_batch g"
  let ?indices' = "indices[j := indices ! j - int (ps ! (B + j mod ?K))]"
  have pos: "b * ?n * ?K + s * ?K = (b * ?n + s) * ?K" by (simp add: algebra_simps)
  have "for_loop (coordinate_step g ?indices' ((b * ?n + s) * ?K)) [0..<?K] acc =
        for_loop (coordinate_step g indices ((b * ?n + s) * ?K)) [0..<?K] acc" for acc
    by (rule for_loop_cong) (simp add: coordinate_step_negative [OF d _ j])
  then show ?thesis by (simp only: slice_step_def Let_def pos)
qed

text \<open>
  Claim C5. For valid shapes, let \<open>j\<close> be a position of the indices buffer whose
  component \<open>c\<close> satisfies \<open>0 \<le> c < axis_size\<close>, the axis being the one of its place
  \<open>j mod coordinates_size\<close> in the tuple. Replacing \<open>c\<close> by \<open>c - axis_size\<close> leaves the
  outcome of \<^verbatim>\<open>gather_nd\<close> unchanged. Both components resolve to \<open>c\<close>; and the loop body
  adds to the offset, for a negative component, the component plus the axis size, and
  for any other the component itself, times the table entry.
\<close>

theorem negative_index_equivalence:
  assumes "derive ps is os B = Some (Derived g)"
    and "j < length indices"
    and "0 \<le> indices ! j"
    and "indices ! j < int (ps ! (B + j mod coordinates_size g))"
  shows "gather_nd params
           (indices[j := indices ! j - int (ps ! (B + j mod coordinates_size g))])
           out ps is os B =
         gather_nd params indices out ps is os B \<and>
         resolved_index (ps ! (B + j mod coordinates_size g))
           (indices ! j - int (ps ! (B + j mod coordinates_size g))) = indices ! j \<and>
         resolved_index (ps ! (B + j mod coordinates_size g)) (indices ! j) = indices ! j \<and>
         (\<forall>c pos acc. c < coordinates_size g \<and> pos + c < length indices \<longrightarrow>
            coordinate_step g indices pos c acc =
              Some (acc + (if indices ! (pos + c) < 0
                           then indices ! (pos + c) + int (ps ! (B + c))
                           else indices ! (pos + c)) * int (indices_offsets g ! c)))"
proof -
  let ?indices' = "indices[j := indices ! j - int (ps ! (B + j mod coordinates_size g))]"
  have "copy_loops g params ?indices' st = copy_loops g params indices st" for st
    unfolding copy_loops_def
    by (intro for_loop_cong) (rule slice_step_negative [OF assms(1,3,4)])
  then have "gather_nd params ?indices' out ps is os B = gather_nd params indices out ps is os B"
    by (simp add: gather_nd_def assms(1))
  moreover have "coordinate_step g indices pos c acc =
              Some (acc + (if indices ! (pos + c) < 0
                           then indices ! (pos + c) + int (ps ! (B + c))
                           else indices ! (pos + c)) * int (indices_offsets g ! c))"
    if "c < coordinates_size g" "pos + c < length indices" for c pos acc
    using that by (simp add: coordinate_step_closed [OF assms(1)] resolved_index_def)
  ultimately show ?thesis using assms(3,4) by (simp add: resolved_index_def)
qed

theorem negative_index_equivalence_witness:
  "gather_nd [0..<24] [1, - 1, 0, 2] ([99, 99], []) [2, 3, 4] [2, 1, 2] [2, 1] 1 =
   gather_nd [0..<24::nat] [1, 3, 0, 2] ([99, 99], []) [2, 3, 4] [2, 1, 2] [2, 1] 1 \<and>
   gather_nd [0..<24::nat] [1, 3, 0, 2] ([99, 99], []) [2, 3, 4] [2, 1, 2] [2, 1] 1 =
     Normal ([7, 14], [(0, 7), (1, 14)]) \<and>
   resolved_index 4 (- 1) = 3"
proof -
  let ?g = "geometry_of [2, 3, 4] [2, 1, 2] 1"
  have v: "valid_shapes [2, 3, 4] [2, 1, 2] [2, 1] 1"
    by (simp add: valid_shapes_def well_formed_def invariant_1_def invariant_2_def
        invariant_3_def shape_size_def)
  have d: "derive [2, 3, 4] [2, 1, 2] [2, 1] 1 = Some (Derived ?g)"
    using v by (rule derive_valid)
  have r: "gather_nd [0..<24::nat] [1, 3, 0, 2] ([99, 99], []) [2, 3, 4] [2, 1, 2] [2, 1] 1 =
     Normal ([7, 14], [(0, 7), (1, 14)])"
    by code_simp
  have ax: "[2, 3, 4] ! (1 + 1 mod coordinates_size ?g) = (4::nat)"
    by (simp add: geometry_of_simps)
  have p: "1 < length [1, 3, 0, 2::int]" "0 \<le> [1, 3, 0, 2::int] ! 1"
    "[1, 3, 0, 2] ! 1 < int ([2, 3, 4] ! (1 + 1 mod coordinates_size ?g))"
    unfolding ax by simp_all
  have u: "[1, 3, 0, 2][1 := [1, 3, 0, 2] ! 1 - int ([2, 3, 4] ! (1 + 1 mod coordinates_size ?g))]
      = [1, - 1, 0, 2::int]"
    unfolding ax by simp
  from negative_index_equivalence [OF d p, of "[0..<24]" "([99, 99], [])"]
  have "gather_nd [0..<24] [1, - 1, 0, 2] ([99, 99], []) [2, 3, 4] [2, 1, 2] [2, 1] 1 =
        gather_nd [0..<24::nat] [1, 3, 0, 2] ([99, 99], []) [2, 3, 4] [2, 1, 2] [2, 1] 1"
    and "resolved_index 4 (- 1) = 3"
    unfolding u ax by simp_all
  with r show ?thesis by simp
qed

section \<open>The concrete scenario\<close>

text \<open>
  Claim C7, as amended. With \<^verbatim>\<open>params_shape = [2,3,4]\<close>, \<^verbatim>\<open>indices_shape = [1,2]\<close> (one
  tuple of width 2), \<^verbatim>\<open>batch_dims = 0\<close> and the tuple \<open>[1,2]\<close>: the slice has 4 elements,
  the shape of the gathered tensor is \<open>[1,4]\<close>, and \<^verbatim>\<open>gather_nd\<close> returns the four elements
  of \<^verbatim>\<open>params\<close> from the row-major position of \<^verbatim>\<open>params[1][2][0]\<close> on.
\<close>

theorem scenario_width_two:
  assumes "length params = 24" and "length out = 4"
  shows "gather_nd params [1, 2] (out, []) [2, 3, 4] [1, 2] [1, 4] 0 =
           Normal (take 4 (drop (1 * (3 * 4) + 2 * 4) params),
                   map (\<lambda>e. (e, params ! (1 * (3 * 4) + 2 * 4 + e))) [0..<4]) \<and>
         slice_size (geometry_of [2, 3, 4] [1, 2] 0) = 4 \<and>
         gathered_shape [2, 3, 4] [1, 2] 0 = [1, 4]"
proof -
  define g where "g = geometry_of [2, 3, 4] [1, 2] 0"
  have v: "valid_shapes [2, 3, 4] [1, 2] [1, 4] 0"
    by (simp add: valid_shapes_def well_formed_def invariant_1_def invariant_2_def
        invariant_3_def)
  have d: "derive [2, 3, 4] [1, 2] [1, 4] 0 = Some (Derived g)"
    unfolding g_def using v by (rule derive_valid)
  have g: "batch_size g = 1" "number_of_slices_to_copy_in_one_batch g = 1"
    "slice_size g = 4"
    unfolding g_def by code_simp+
  have src: "source_offset g [2, 3, 4] 0 [1, 2] 0 0 = 20"
    unfolding g_def by code_simp
  have dst: "destination_offset g 0 0 = 0"
    by (simp add: destination_offset_def)
  have tup: "(0 * number_of_slices_to_copy_in_one_batch g + 0) * coordinates_size g +
      coordinates_size g \<le> length [1, 2::int]"
    unfolding g_def by code_simp
  have "copy_in_bounds g [2, 3, 4] 0 (length params) [1, 2] (length out) 0 0"
    unfolding copy_in_bounds_def src dst using assms tup by (simp add: g)
  then have inb: "all_in_bounds g [2, 3, 4] 0 (length params) [1, 2] (length out)"
    by (simp add: all_in_bounds_iff g)
  have "gather_nd params [1, 2] (out, []) [2, 3, 4] [1, 2] [1, 4] 0 =
      Normal (take 4 (drop 20 params) @ drop 4 out, map (\<lambda>e. (e, params ! (20 + e))) [0..<4])"
    unfolding gather_nd_closed [OF d] using inb
    by (simp add: g gathered_slice_def slice_writes_def src dst)
  moreover have "slice_size (geometry_of [2, 3, 4] [1, 2] 0) = 4"
    and "gathered_shape [2, 3, 4] [1, 2] 0 = [1, 4]"
    by code_simp+
  ultimately show ?thesis using assms by simp
qed

theorem scenario_width_two_witness:
  "gather_nd [0..<24] [1, 2] ([9, 9, 9, 9], []) [2, 3, 4] [1, 2] [1, 4] 0 =
     Normal ([20, 21, 22, 23], [(0, 20), (1, 21), (2, 22), (3, 23)])"
proof -
  have h: "length [0..<24] = 24" "length [9, 9, 9, 9::nat] = 4"
    by simp_all
  have e1: "take 4 (drop (1 * (3 * 4) + 2 * 4) [0..<24]) = [20, 21, 22, 23]"
    by code_simp
  have e2: "map (\<lambda>e. (e, [0..<24] ! (1 * (3 * 4) + 2 * 4 + e))) [0..<4] =
      [(0, 20), (1, 21), (2, 22), (3, 23)]"
    by code_simp
  from scenario_width_two [OF h] show ?thesis unfolding e1 e2 by blast
qed

text \<open>
  With \<^verbatim>\<open>indices_shape = [2,1]\<close>, as claim C7 states it, the coordinate width is 1: there
  are two tuples, each selecting 12 elements along the first axis. The tuple \<open>[2]\<close> is
  outside that axis, and already the first copy does not fit an output of 4 elements.
\<close>

theorem scenario_indices_shape_counterexample:
  "derive [2, 3, 4] [2, 1] [1, 4] 0 = Some (Derived (geometry_of [2, 3, 4] [2, 1] 0)) \<and>
   coordinates_size (geometry_of [2, 3, 4] [2, 1] 0) = 1 \<and>
   number_of_slices_to_copy_in_one_batch (geometry_of [2, 3, 4] [2, 1] 0) = 2 \<and>
   slice_size (geometry_of [2, 3, 4] [2, 1] 0) = 12 \<and>
   gather_nd [0..<24] [1, 2] ([9, 9, 9, 9::nat], []) [2, 3, 4] [2, 1] [1, 4] 0 = Undefined \<and>
   gather_nd [0..<24] [1, 2] (replicate 24 (9::nat), []) [2, 3, 4] [2, 1] [1, 4] 0 = Undefined"
proof -
  have v: "valid_shapes [2, 3, 4] [2, 1] [1, 4] 0"
    by (simp add: valid_shapes_def well_formed_def invariant_1_def invariant_2_def
        invariant_3_def)
  have r1: "gather_nd [0..<24] [1, 2] ([9, 9, 9, 9::nat], []) [2, 3, 4] [2, 1] [1, 4] 0 = Undefined"
    by code_simp
  have r2: "gather_nd [0..<24] [1, 2] (replicate 24 (9::nat), []) [2, 3, 4] [2, 1] [1, 4] 0 = Undefined"
    by code_simp
  show ?thesis
    using derive_valid [OF v] r1 r2 by (simp add: geometry_of_simps shape_size_def)
qed

section \<open>Batch independence\<close>

lemma length_block: "(b + 1) * len \<le> length xs \<Longrightarrow> length (block len b xs) = len"
  by (simp add: block_def algebra_simps)

lemma nth_block: "(b + 1) * len \<le> length xs \<Longrightarrow> j < len \<Longrightarrow> block len b xs ! j = xs ! (b * len + j)"
  by (simp add: block_def algebra_simps)

lemma block_le:
  assumes "b < m" "m * len \<le> length xs"
  shows "(b + 1) * len \<le> length (xs :: 'a list)"
proof -
  have "(b + 1) * len \<le> m * len" using assms(1) by (intro mult_le_mono1) simp
  with assms(2) show ?thesis by linarith
qed

text \<open>The call for one batch derives the constants of the combined call, for one batch.\<close>

lemma batch_geometry:
  assumes d: "derive ps is os B = Some (Derived g)"
  shows "derive (drop B ps) (drop B is) os' 0 =
           Some (Derived (geometry_of (drop B ps) (drop B is) 0))"
    and "batch_size (geometry_of (drop B ps) (drop B is) 0) = 1"
    and "slice_size (geometry_of (drop B ps) (drop B is) 0) = slice_size g"
    and "indices_offsets (geometry_of (drop B ps) (drop B is) 0) = indices_offsets g"
    and "batch_offset (geometry_of (drop B ps) (drop B is) 0) = batch_offset g"
    and "number_of_slices_to_copy_in_one_batch (geometry_of (drop B ps) (drop B is) 0) =
           number_of_slices_to_copy_in_one_batch g"
    and "coordinates_size (geometry_of (drop B ps) (drop B is) 0) = coordinates_size g"
proof -
  from d have v: "valid_shapes ps is os B" and g: "g = geometry_of ps is B"
    by (simp_all add: derive_Derived_iff)
  from v have wf: "B < length is" "0 < last is" and i2: "B + last is \<le> length ps"
    by (simp_all add: valid_shapes_def well_formed_def invariant_2_def)
  have l: "last (drop B is) = last is" using wf by simp
  have "valid_shapes (drop B ps) (drop B is) os' 0"
    using wf i2
    by (simp add: valid_shapes_def well_formed_def invariant_1_def invariant_2_def
        invariant_3_def)
  then show "derive (drop B ps) (drop B is) os' 0 =
           Some (Derived (geometry_of (drop B ps) (drop B is) 0))"
    by (rule derive_valid)
  show "batch_size (geometry_of (drop B ps) (drop B is) 0) = 1"
    by (simp add: geometry_of_simps shape_size_def)
  show "slice_size (geometry_of (drop B ps) (drop B is) 0) = slice_size g"
    by (simp add: g geometry_of_simps l add.commute)
  have td: "take (last is) (drop B ps) = drop B (take (B + last is) ps)"
    by (simp add: take_drop add.commute)
  show "indices_offsets (geometry_of (drop B ps) (drop B is) 0) = indices_offsets g"
    by (simp add: g geometry_of_simps l td add.commute)
  show "batch_offset (geometry_of (drop B ps) (drop B is) 0) = batch_offset g"
    by (simp add: g geometry_of_simps l td add.commute)
  show "number_of_slices_to_copy_in_one_batch (geometry_of (drop B ps) (drop B is) 0) =
           number_of_slices_to_copy_in_one_batch g"
    by (simp add: g geometry_of_simps butlast_drop)
  show "coordinates_size (geometry_of (drop B ps) (drop B is) 0) = coordinates_size g"
    by (simp add: g geometry_of_simps l)
qed

lemma batch_tuple_offset:
  assumes d: "derive ps is os B = Some (Derived g)"
  shows "tuple_offset (geometry_of (drop B ps) (drop B is) 0) (drop B ps) 0 t =
         tuple_offset g ps B t"
proof -
  from d have v: "valid_shapes ps is os B" and g: "g = geometry_of ps is B"
    by (simp_all add: derive_Derived_iff)
  from v have i2: "B + coordinates_size g \<le> length ps"
    by (simp add: valid_shapes_def invariant_2_def g geometry_of_simps)
  show ?thesis
    unfolding tuple_offset_def batch_geometry(4,7) [OF d]
    by (intro arg_cong [where f = sum_list] map_cong refl) (use i2 in simp)
qed

lemma batch_coordinate_tuple:
  assumes "s < n" and "n = number_of_slices_to_copy_in_one_batch g"
    and g': "number_of_slices_to_copy_in_one_batch g' = n" "coordinates_size g' = coordinates_size g"
  shows "coordinate_tuple g' (block (n * coordinates_size g) b indices) 0 s =
         coordinate_tuple g indices b s"
proof -
  let ?K = "coordinates_size g"
  have "s * ?K + ?K \<le> n * ?K"
    using assms(1) by (metis Suc_leI mult_Suc mult_le_mono1 add.commute)
  then have "take ?K (drop (s * ?K) (take (n * ?K) (drop (b * (n * ?K)) indices))) =
      take ?K (drop (s * ?K) (drop (b * (n * ?K)) indices))"
    by (rule take_drop_take)
  then show ?thesis
    by (simp add: coordinate_tuple_def block_def g' assms(2) [symmetric] algebra_simps)
qed

lemma batch_coordinates_in_range:
  assumes cr: "coordinates_in_range g ps B indices"
    and le: "(b + 1) * (n * coordinates_size g) \<le> length indices"
    and B: "B + coordinates_size g \<le> length ps" and K: "0 < coordinates_size g"
    and g': "coordinates_size g' = coordinates_size g"
  shows "coordinates_in_range g' (drop B ps) 0 (block (n * coordinates_size g) b indices)"
  unfolding coordinates_in_range_iff
proof (intro allI impI)
  let ?K = "coordinates_size g"
  fix j assume "j < length (block (n * ?K) b indices)"
  then have j: "j < n * ?K" by (simp add: length_block [OF le])
  have nth: "block (n * ?K) b indices ! j = indices ! (b * (n * ?K) + j)"
    using le j by (rule nth_block)
  have lt: "b * (n * ?K) + j < length indices" using le j by simp
  have md: "(b * (n * ?K) + j) mod ?K = j mod ?K"
    by (metis mod_mult_self3 mult.assoc)
  have "j mod ?K < ?K" using K by simp
  then have ax: "drop B ps ! (0 + j mod ?K) = ps ! (B + j mod ?K)"
    using B by simp
  from cr lt have "- int (ps ! (B + (b * (n * ?K) + j) mod ?K)) \<le> indices ! (b * (n * ?K) + j) \<and>
      indices ! (b * (n * ?K) + j) < int (ps ! (B + (b * (n * ?K) + j) mod ?K))"
    unfolding coordinates_in_range_iff by blast
  then show "- int (drop B ps ! (0 + j mod coordinates_size g')) \<le> block (n * ?K) b indices ! j \<and>
      block (n * ?K) b indices ! j < int (drop B ps ! (0 + j mod coordinates_size g'))"
    unfolding g' ax nth md .
qed

text \<open>
  Where a slice is copied for a batch, from a buffer that has the size of its shape and
  fewer than \<open>2 ^ 64\<close> elements, with every component of the indices addressing its
  axis, \<^verbatim>\<open>batch_offset\<close> has not wrapped around: no indexed axis has size 0, and the
  product is at most the size of the buffer.
\<close>

lemma batch_offset_exact:
  assumes d: "derive ps is os B = Some (Derived g)"
    and lp: "length params = shape_size ps"
    and lt: "length (params :: 'a list) < 2 ^ 64"
    and li: "length indices = shape_size is"
    and cr: "coordinates_in_range g ps B indices"
    and b: "b < batch_size g"
    and s: "s < number_of_slices_to_copy_in_one_batch g"
  shows "batch_offset g = shape_size (drop B ps)"
proof -
  let ?K = "last is"
  let ?n = "number_of_slices_to_copy_in_one_batch g"
  from d have v: "valid_shapes ps is os B" and g: "g = geometry_of ps is B"
    by (simp_all add: derive_Derived_iff)
  from v have wf: "B < length is" "0 < ?K" and i1: "take B ps = take B is"
    and i2: "B + ?K \<le> length ps"
    by (simp_all add: valid_shapes_def well_formed_def invariant_1_def invariant_2_def)
  have K: "coordinates_size g = ?K" by (simp add: g geometry_of_simps)
  have "shape_size is = shape_size (take B is) * shape_size (drop B is)"
    by (simp add: shape_size_take_drop)
  also have "shape_size (drop B is) = shape_size (drop B (butlast is)) * ?K"
    using wf by (intro shape_size_indices) auto
  finally have sI: "length indices = batch_size g * ?n * ?K"
    by (simp add: li g geometry_of_simps i1)
  have "1 * 1 \<le> batch_size g * ?n"
    using b s by (intro mult_le_mono) simp_all
  then have "1 * 1 * ?K \<le> batch_size g * ?n * ?K"
    by (rule mult_le_mono1)
  then have Kle: "?K \<le> length indices" by (simp add: sI)
  have pos: "0 < ps ! (B + c)" if c: "c < ?K" for c
  proof -
    have "c < length indices" using c Kle by simp
    moreover have "c mod ?K = c" using c by simp
    ultimately have "- int (ps ! (B + c)) \<le> indices ! c \<and> indices ! c < int (ps ! (B + c))"
      using cr unfolding coordinates_in_range_iff K by metis
    then show ?thesis by linarith
  qed
  have all: "\<forall>x\<in>set (drop B (take (B + ?K) ps)). 0 < x"
  proof
    fix x assume "x \<in> set (drop B (take (B + ?K) ps))"
    then obtain i where "i < length (drop B (take (B + ?K) ps))"
      "x = drop B (take (B + ?K) ps) ! i"
      by (auto simp add: in_set_conv_nth)
    then have "i < ?K" "x = ps ! (B + i)" using i2 by simp_all
    then show "0 < x" using pos by simp
  qed
  have split: "prod_list (drop B (take (B + ?K) ps)) * prod_list (drop (B + ?K) ps) =
      prod_list (drop B ps)"
    by (intro prod_list_drop_split) simp
  have "shape_size ps = batch_size g * prod_list (drop B ps)"
    by (simp add: g geometry_of_simps shape_size_prod_list flip: prod_list.append)
  then have "prod_list (drop B ps) \<le> length params"
    using b lp by simp
  then have "prod_list (drop B (take (B + ?K) ps)) * prod_list (drop (B + ?K) ps) < 2 ^ 64"
    using lt split by simp
  with all have "wrapped_product (drop B (take (B + ?K) ps)) (prod_list (drop (B + ?K) ps)) =
      prod_list (drop B (take (B + ?K) ps)) * prod_list (drop (B + ?K) ps)"
    by (rule wrapped_product_exact)
  then show ?thesis
    by (simp add: g geometry_of_simps shape_size_prod_list split)
qed

lemma batch_call_buffer:
  assumes d: "derive ps is os B = Some (Derived g)"
    and lp: "length params = shape_size ps"
    and lt: "length params < 2 ^ 64"
    and li: "length indices = shape_size is"
    and lo: "length out =
        batch_size g * number_of_slices_to_copy_in_one_batch g * slice_size g"
    and so: "shape_size (tl os) = number_of_slices_to_copy_in_one_batch g * slice_size g"
    and cr: "coordinates_in_range g ps B indices"
    and b: "b < batch_size g"
  shows "returned_buffer (batch_call params indices out ps is os B b) =
     Some (concat (map (gathered_slice g ps B params indices b)
                     [0..<number_of_slices_to_copy_in_one_batch g]))"
proof -
  let ?n = "number_of_slices_to_copy_in_one_batch g"
  let ?K = "coordinates_size g"
  let ?sz = "slice_size g"
  let ?ps' = "drop B ps" and ?is' = "drop B is"
  let ?P = "shape_size ?ps'"
  let ?g' = "geometry_of ?ps' ?is' 0"
  let ?params_b = "block ?P b params"
  let ?indices_b = "block (?n * ?K) b indices"
  let ?out_b = "block (?n * ?sz) b out"
  note bg1 = batch_geometry(1) [OF d, of "tl os"]
  note bg = batch_geometry(2-7) [OF d]
  from d have v: "valid_shapes ps is os B" and g: "g = geometry_of ps is B"
    by (simp_all add: derive_Derived_iff)
  from v have wf: "B < length is" "0 < last is" and i1: "take B ps = take B is"
    and i2: "B + last is \<le> length ps"
    by (simp_all add: valid_shapes_def well_formed_def invariant_1_def invariant_2_def)
  have K: "0 < ?K" "B + ?K \<le> length ps" using wf i2 by (simp_all add: g geometry_of_simps)
  have "shape_size ?is' = shape_size (drop B (butlast is)) * last is"
    using wf by (intro shape_size_indices) auto
  then have sI: "shape_size ?is' = ?n * ?K"
    by (simp add: g geometry_of_simps)
  have "shape_size ps = batch_size g * ?P"
    by (simp add: g geometry_of_simps shape_size_take_drop)
  then have lep: "(b + 1) * ?P \<le> length params"
    using b lp by (intro block_le [where m = "batch_size g"]) simp_all
  have "shape_size is = shape_size (take B is) * shape_size (drop B is)"
    by (simp add: shape_size_take_drop)
  then have "shape_size is = batch_size g * (?n * ?K)"
    unfolding sI by (simp add: g geometry_of_simps i1)
  then have lei: "(b + 1) * (?n * ?K) \<le> length indices"
    using b li by (intro block_le [where m = "batch_size g"]) simp_all
  have leo: "(b + 1) * (?n * ?sz) \<le> length out"
    using b lo by (intro block_le [where m = "batch_size g"]) (simp_all add: mult.assoc)
  have lpb: "length ?params_b = ?P" using lep by (rule length_block)
  have lib: "length ?indices_b = ?n * ?K" using lei by (rule length_block)
  have lob: "length ?out_b = ?n * ?sz" using leo by (rule length_block)
  have call: "batch_call params indices out ps is os B b =
      gather_nd ?params_b ?indices_b (?out_b, []) ?ps' ?is' (tl os) 0"
    by (simp only: batch_call_def sI so)
  have cr': "coordinates_in_range ?g' ?ps' 0 ?indices_b"
    using cr lei K(2) K(1) bg(6) by (rule batch_coordinates_in_range)
  have inb': "all_in_bounds ?g' ?ps' 0 (length ?params_b) ?indices_b (length ?out_b)"
    using bg1 _ _ _ cr'
    by (rule in_range_all_in_bounds) (simp_all add: bg lpb lib lob)
  have src: "source_offset ?g' ?ps' 0 ?indices_b 0 s =
      tuple_offset g ps B (coordinate_tuple g indices b s)" if "s < ?n" for s
    unfolding source_offset_def batch_tuple_offset [OF d]
      batch_coordinate_tuple [OF that refl bg(5,6)]
    by simp
  have slice: "gathered_slice ?g' ?ps' 0 ?params_b ?indices_b 0 s =
      gathered_slice g ps B params indices b s" if s: "s < ?n" for s
  proof -
    let ?T = "tuple_offset g ps B (coordinate_tuple g indices b s)"
    have bo: "batch_offset g = ?P"
      using d lp lt li cr b s by (rule batch_offset_exact)
    from inb' s have "copy_in_bounds ?g' ?ps' 0 (length ?params_b) ?indices_b (length ?out_b) 0 s"
      by (simp add: all_in_bounds_iff bg)
    then have T: "0 \<le> ?T" "nat ?T + ?sz \<le> ?P"
      by (simp_all add: copy_in_bounds_def src [OF s] bg lpb)
    have "take ?sz (drop (nat ?T) (take ?P (drop (b * ?P) params))) =
        take ?sz (drop (nat ?T) (drop (b * ?P) params))"
      using T(2) by (rule take_drop_take)
    moreover have "nat (int (b * ?P) + ?T) = nat ?T + b * ?P"
    proof -
      have "nat (int (b * ?P) + ?T) = nat (int (b * ?P)) + nat ?T"
        using T(1) by (intro nat_add_distrib) simp_all
      then show ?thesis by (simp only: nat_int add.commute)
    qed
    moreover have "gathered_slice ?g' ?ps' 0 ?params_b ?indices_b 0 s =
        take ?sz (drop (nat ?T) ?params_b)"
      by (simp only: gathered_slice_def src [OF s] bg)
    then have "gathered_slice ?g' ?ps' 0 ?params_b ?indices_b 0 s =
        take ?sz (drop (nat ?T) (take ?P (drop (b * ?P) params)))"
      by (simp only: block_def)
    moreover have "gathered_slice g ps B params indices b s =
        take ?sz (drop (nat (int (b * ?P) + ?T)) params)"
      by (simp only: gathered_slice_def source_offset_def bo)
    ultimately show ?thesis by (simp only: drop_drop)
  qed
  have "gather_nd ?params_b ?indices_b (?out_b, []) ?ps' ?is' (tl os) 0 =
      Normal (concat (map (gathered_slice ?g' ?ps' 0 ?params_b ?indices_b 0) [0..<?n]) @
                drop (?n * ?sz) ?out_b,
              concat (map (slice_writes ?g' ?ps' 0 ?params_b ?indices_b 0) [0..<?n]))"
    unfolding gather_nd_closed [OF bg1] using inb' by (simp add: bg)
  moreover have "map (gathered_slice ?g' ?ps' 0 ?params_b ?indices_b 0) [0..<?n] =
      map (gathered_slice g ps B params indices b) [0..<?n]"
    by (rule map_cong) (simp_all add: slice)
  ultimately show ?thesis
    unfolding call by (simp add: returned_buffer_def lob)
qed

text \<open>
  Claim C8, as amended. For valid shapes with \<^verbatim>\<open>batch_dims > 0\<close>, buffers of the
  sizes their shapes give, a \<^verbatim>\<open>params\<close> buffer of fewer than \<open>2 ^ 64\<close> elements, an
  \<^verbatim>\<open>out_shape\<close> of \<open>batch_size * number_of_slices * slice_size\<close> elements, and every
  component of the indices addressing its axis: the combined call returns, the call for
  each batch alone (\<^verbatim>\<open>batch_dims = 0\<close>, block \<open>b\<close> of each buffer, the shapes without their
  batch prefix) returns, and the buffers returned for the batches, concatenated in batch
  order, are the buffer returned by the combined call.
\<close>

theorem batch_independence:
  assumes "valid_shapes ps is os B" and "0 < B"
    and "derive ps is os B = Some (Derived g)"
    and "length params = shape_size ps"
    and "length params < 2 ^ 64"
    and "length indices = shape_size is"
    and "length out = shape_size os"
    and "shape_size os =
           batch_size g * number_of_slices_to_copy_in_one_batch g * slice_size g"
    and "coordinates_in_range g ps B indices"
  shows "\<exists>out' writes bufs.
           gather_nd params indices (out, []) ps is os B = Normal (out', writes) \<and>
           map (\<lambda>b. returned_buffer (batch_call params indices out ps is os B b))
             [0..<batch_size g] = map Some bufs \<and>
           concat bufs = out'"
proof -
  let ?n = "number_of_slices_to_copy_in_one_batch g"
  let ?chunk = "\<lambda>b. concat (map (gathered_slice g ps B params indices b) [0..<?n])"
  note d = assms(3)
  have lo: "length out = batch_size g * ?n * slice_size g"
    using assms(7,8) by simp
  have inb: "all_in_bounds g ps B (length params) indices (length out)"
    using d assms(4,6) _ assms(9) by (rule gather_nd_defined) (simp add: lo)
  have run: "gather_nd params indices (out, []) ps is os B =
      Normal (concat (map ?chunk [0..<batch_size g]),
              concat (map (\<lambda>b. concat (map (slice_writes g ps B params indices b) [0..<?n]))
                        [0..<batch_size g]))"
    unfolding gather_nd_closed [OF d] using inb by (simp add: lo mult.assoc)
  have calls: "map (\<lambda>b. returned_buffer (batch_call params indices out ps is os B b))
      [0..<batch_size g] = map Some (map ?chunk [0..<batch_size g])"
  proof (cases "batch_size g = 0")
    case True
    then show ?thesis by simp
  next
    case False
    from assms(1,2) have "os \<noteq> []" "hd os = shape_size (take B ps)"
      by (simp_all add: valid_shapes_def well_formed_def invariant_3_def)
    then have "shape_size os = batch_size g * shape_size (tl os)"
      using d by (cases os) (simp_all add: derive_Derived_iff geometry_of_simps shape_size_prod_list)
    with assms(8) False have so: "shape_size (tl os) = ?n * slice_size g"
      by (simp add: mult.assoc)
    show ?thesis
      unfolding map_map comp_def
      by (rule map_cong [OF refl])
         (simp add: batch_call_buffer [OF d assms(4,5,6) lo so assms(9)])
  qed
  from run calls show ?thesis by blast
qed

theorem batch_independence_witness:
  "(\<exists>out' writes bufs.
      gather_nd [0..<24] [1, - 1, 0, 2] ([99, 99], []) [2, 3, 4] [2, 1, 2] [2, 1] 1 =
        Normal (out', writes) \<and>
      map (\<lambda>b. returned_buffer
                  (batch_call [0..<24] [1, - 1, 0, 2] [99, 99] [2, 3, 4] [2, 1, 2] [2, 1] 1 b))
        [0..<batch_size (geometry_of [2, 3, 4] [2, 1, 2] 1)] = map Some bufs \<and>
      concat bufs = out') \<and>
   gather_nd [0..<24] [1, - 1, 0, 2] ([99, 99], []) [2, 3, 4] [2, 1, 2] [2, 1] 1 =
     Normal ([7, 14], [(0, 7), (1, 14)]) \<and>
   batch_call [0..<24] [1, - 1, 0, 2] [99, 99] [2, 3, 4] [2, 1, 2] [2, 1] 1 0 =
     Normal ([7], [(0, 7)]) \<and>
   batch_call [0..<24] [1, - 1, 0, 2] [99, 99] [2, 3, 4] [2, 1, 2] [2, 1] 1 1 =
     Normal ([14], [(0, 14)])"
proof -
  define g where "g = geometry_of [2, 3, 4] [2, 1, 2] 1"
  note d = example_derive [folded g_def]
  have sz: "shape_size [2, 1] =
      batch_size g * number_of_slices_to_copy_in_one_batch g * slice_size g"
    unfolding g_def example_geometry by code_simp
  have one: "0 < (1::nat)"
    by simp
  have small: "length [0..<24] < 2 ^ 64"
    by simp
  have b0: "batch_call [0..<24] [1, - 1, 0, 2] [99, 99] [2, 3, 4] [2, 1, 2] [2, 1] 1 0 =
     Normal ([7], [(0, 7::nat)])"
    by code_simp
  have b1: "batch_call [0..<24] [1, - 1, 0, 2] [99, 99] [2, 3, 4] [2, 1, 2] [2, 1] 1 1 =
     Normal ([14], [(0, 14::nat)])"
    by code_simp
  from batch_independence
    [OF example_valid one d example_sizes(1) small example_sizes(2,3) sz
      example_in_range [folded g_def]]
    example_run b0 b1
  show ?thesis
    unfolding g_def by blast
qed

text \<open>
  Claim C8 as stated fails when \<^verbatim>\<open>out_shape\<close> has more elements than the call writes, which the invariants allow. With \<^verbatim>\<open>out_shape = [2, 7]\<close> on the running
  example the shapes are valid, the buffers have the sizes of their shapes and the
  indices address their axes. The combined call writes positions 0 and 1 of its 14
  elements; the calls for the two batches write position 0 of their 7 elements each, so
  that the second write lands at position 7 of the concatenation.
\<close>

theorem batch_out_shape_counterexample:
  "valid_shapes [2, 3, 4] [2, 1, 2] [2, 7] 1 \<and>
   length [0..<24] = shape_size [2, 3, 4] \<and>
   length [1, - 1, 0, 2::int] = shape_size [2, 1, 2] \<and>
   length [99, 99, 99, 99, 99, 99, 99, 99, 99, 99, 99, 99, 99, 99::nat] = shape_size [2, 7] \<and>
   coordinates_in_range (geometry_of [2, 3, 4] [2, 1, 2] 1) [2, 3, 4] 1 [1, - 1, 0, 2] \<and>
   gather_nd [0..<24] [1, - 1, 0, 2]
       ([99, 99, 99, 99, 99, 99, 99, 99, 99, 99, 99, 99, 99, 99], [])
       [2, 3, 4] [2, 1, 2] [2, 7] 1 =
     Normal ([7, 14, 99, 99, 99, 99, 99, 99, 99, 99, 99, 99, 99, 99], [(0, 7), (1, 14)]) \<and>
   batch_call [0..<24] [1, - 1, 0, 2]
       [99, 99, 99, 99, 99, 99, 99, 99, 99, 99, 99, 99, 99, 99]
       [2, 3, 4] [2, 1, 2] [2, 7] 1 0 =
     Normal ([7, 99, 99, 99, 99, 99, 99], [(0, 7)]) \<and>
   batch_call [0..<24] [1, - 1, 0, 2]
       [99, 99, 99, 99, 99, 99, 99, 99, 99, 99, 99, 99, 99, 99]
       [2, 3, 4] [2, 1, 2] [2, 7] 1 1 =
     Normal ([14, 99, 99, 99, 99, 99, 99], [(0, 14)]) \<and>
   [7, 99, 99, 99, 99, 99, 99] @ [14, 99, 99, 99, 99, 99, 99] \<noteq>
     [7, 14, 99, 99, 99, 99, 99, 99, 99, 99, 99, 99, 99, 99::nat]"
proof -
  have v: "valid_shapes [2, 3, 4] [2, 1, 2] [2, 7] 1"
    by (simp add: valid_shapes_def well_formed_def invariant_1_def invariant_2_def
        invariant_3_def shape_size_def)
  have l: "length [99, 99, 99, 99, 99, 99, 99, 99, 99, 99, 99, 99, 99, 99::nat] =
      shape_size [2, 7]"
    by code_simp
  have r: "gather_nd [0..<24] [1, - 1, 0, 2]
       ([99, 99, 99, 99, 99, 99, 99, 99, 99, 99, 99, 99, 99, 99], [])
       [2, 3, 4] [2, 1, 2] [2, 7] 1 =
     Normal ([7, 14, 99, 99, 99, 99, 99, 99, 99, 99, 99, 99, 99, 99::nat], [(0, 7), (1, 14)])"
    by code_simp
  have b0: "batch_call [0..<24] [1, - 1, 0, 2]
       [99, 99, 99, 99, 99, 99, 99, 99, 99, 99, 99, 99, 99, 99]
       [2, 3, 4] [2, 1, 2] [2, 7] 1 0 =
     Normal ([7, 99, 99, 99, 99, 99, 99::nat], [(0, 7)])"
    by code_simp
  have b1: "batch_call [0..<24] [1, - 1, 0, 2]
       [99, 99, 99, 99, 99, 99, 99, 99, 99, 99, 99, 99, 99, 99]
       [2, 3, 4] [2, 1, 2] [2, 7] 1 1 =
     Normal ([14, 99, 99, 99, 99, 99, 99::nat], [(0, 14)])"
    by code_simp
  from v example_sizes(1,2) l example_in_range r b0 b1 show ?thesis
    by simp
qed

end
